theory Spec2Isabelle
  imports Complex_Main "HOL-Library.Word" "HOL-Library.Signed_Division"
begin

unbundle bit_operations_syntax

section \<open>Conventions of the embedding\<close>

text \<open>
  The C sources are embedded function by function, under the source's names.

  \<^item> A C \<open>float\<close> or \<open>double\<close> value is a \<^typ>\<open>real\<close>. In the codec and the two
    engines arithmetic on them is exact, and a value is a finite number. Where a
    property depends on more, the code is embedded closer to the machine:
    \<open>wrap_phase\<close> rounds as \<open>float\<close> and \<open>double\<close> arithmetic do (section on phase
    wrapping), and the clamp of the ratio and the PSOLA engine are embedded a second
    time over values that can be NaN or infinite (section on C floats).
  \<^item> The macro \<open>M_PI\<close> (3.14159265358979323846) is the \<open>double\<close> this literal denotes,
    \<open>884279719003555 / 2 ^ 48\<close>, about 3.141592653589793116: the \<open>double\<close> nearest to
    \<^term>\<open>pi\<close>, and below it.
  \<^item> A conversion \<open>(int)x\<close> of a floating value truncates towards zero: \<open>c_trunc\<close>.
  \<^item> Integers that are written to or read from a file keep their width
    (\<^typ>\<open>32 word\<close>, \<^typ>\<open>16 word\<close>, \<^typ>\<open>8 word\<close>) and wrap around as in C.
    Loop counters and array indices are \<^typ>\<open>int\<close> or \<^typ>\<open>nat\<close>.
  \<^item> An array together with its element count is a list.
\<close>

definition c_trunc :: "real \<Rightarrow> int" where
  "c_trunc x = (if 0 \<le> x then \<lfloor>x\<rfloor> else \<lceil>x\<rceil>)"

definition M_PI :: real where
  "M_PI = 884279719003555 / 2 ^ 48"

section \<open>Frequency mapper (helloworld.c)\<close>

text \<open>\<open>get_note_frequency\<close>: A4 is MIDI note 69 at 440 Hz.\<close>

definition get_note_frequency :: "int \<Rightarrow> real" where
  "get_note_frequency midi_note =
     (let semitones_from_a4 = real_of_int (midi_note - 69)
      in 440 * (2 powr (semitones_from_a4 / 12)))"

definition frequency_to_midi_note :: "real \<Rightarrow> int" where
  "frequency_to_midi_note frequency =
     (if frequency \<le> 0 then - 1
      else let log2_val = ln (frequency / 440) / ln 2
           in c_trunc (12 * log2_val + 69 + 0.5))"

text \<open>
  The two loops of \<open>find_closest_target_frequency\<close>, over the octaves still to visit.
  The result is the value of \<open>target_freq\<close> at the \<open>return\<close>: the frequency at the
  \<open>break\<close>, or the initial 0 when the loop runs to its end.
\<close>

fun scan_down :: "real \<Rightarrow> int \<Rightarrow> int list \<Rightarrow> real" where
  "scan_down recorded_freq reference_note_class [] = 0"
| "scan_down recorded_freq reference_note_class (octave # rest) =
     (let midi_note = reference_note_class + octave * 12
      in if midi_note \<ge> 12 \<and> midi_note \<le> 108
         then (let freq = get_note_frequency midi_note
               in if freq < recorded_freq then freq
                  else scan_down recorded_freq reference_note_class rest)
         else scan_down recorded_freq reference_note_class rest)"

fun scan_up :: "real \<Rightarrow> int \<Rightarrow> int list \<Rightarrow> real" where
  "scan_up recorded_freq reference_note_class [] = 0"
| "scan_up recorded_freq reference_note_class (octave # rest) =
     (let midi_note = reference_note_class + octave * 12
      in if midi_note \<ge> 12 \<and> midi_note \<le> 108
         then (let freq = get_note_frequency midi_note
               in if freq > recorded_freq then freq
                  else scan_up recorded_freq reference_note_class rest)
         else scan_up recorded_freq reference_note_class rest)"

definition find_closest_target_frequency :: "real \<Rightarrow> int \<Rightarrow> real \<Rightarrow> real" where
  "find_closest_target_frequency recorded_freq reference_note_class reference_freq =
     (if recorded_freq > reference_freq
      then scan_down recorded_freq reference_note_class [8, 7, 6, 5, 4, 3, 2, 1]
      else scan_up recorded_freq reference_note_class [1, 2, 3, 4, 5, 6, 7, 8])"

text \<open>
  The part of \<open>main\<close> (state 3) that turns the two detected pitches into the global
  \<open>target_pitch_ratio\<close>: the reference's note class is the C remainder \<open>ref_midi % 12\<close>
  (\<open>smod\<close>, which truncates as C does).
\<close>

definition main_target_pitch_ratio :: "real \<Rightarrow> real \<Rightarrow> real" where
  "main_target_pitch_ratio recorded_pitch ref_pitch =
     (let ref_midi = frequency_to_midi_note ref_pitch;
          ref_note_class = ref_midi smod 12;
          target_freq = find_closest_target_frequency recorded_pitch ref_note_class ref_pitch
      in if target_freq > 0 then target_freq / recorded_pitch else 1)"

text \<open>
  Vocabulary of the specification. A recurrence of a pitch class is a MIDI note of
  the playable range 12 to 108 that differs from the class by whole octaves. The
  required side of the recorded frequency is below it when the recording is above
  the reference, and above it otherwise.
\<close>

definition is_recurrence :: "int \<Rightarrow> int \<Rightarrow> bool" where
  "is_recurrence note_class midi_note \<longleftrightarrow>
     12 \<le> midi_note \<and> midi_note \<le> 108 \<and> (midi_note - note_class) mod 12 = 0"

definition on_required_side :: "real \<Rightarrow> real \<Rightarrow> real \<Rightarrow> bool" where
  "on_required_side recorded_freq reference_freq freq =
     (if recorded_freq > reference_freq then freq < recorded_freq else freq > recorded_freq)"

section \<open>Phase wrapping (phase\_voc.c)\<close>










text \<open>
  The same loops without the two roundings, as the phase vocoder over real samples
  uses them. Each of them terminates: the distance to the interval shrinks by
  \<open>2 * M_PI\<close> per iteration.
\<close>

function wrap_exact_down :: "real \<Rightarrow> real" where
  "wrap_exact_down phase =
     (if phase > M_PI then wrap_exact_down (phase - 2 * M_PI) else phase)"
  by pat_completeness auto
termination
proof (relation "measure (\<lambda>p. nat \<lceil>(p + M_PI) / (2 * M_PI)\<rceil>)")
  show "wf (measure (\<lambda>p. nat \<lceil>(p + M_PI) / (2 * M_PI)\<rceil>))" by simp
next
  fix phase :: real
  assume a: "M_PI < phase"
  have pos: "0 < M_PI" by (simp add: M_PI_def)
  have e: "(phase - 2 * M_PI + M_PI) / (2 * M_PI) = (phase + M_PI) / (2 * M_PI) - 1"
    using pos by (simp add: field_simps)
  have c: "\<lceil>(phase - 2 * M_PI + M_PI) / (2 * M_PI)\<rceil> = \<lceil>(phase + M_PI) / (2 * M_PI)\<rceil> - 1"
    unfolding e by simp
  have "1 < (phase + M_PI) / (2 * M_PI)" using a pos by (simp add: field_simps)
  then have "1 < \<lceil>(phase + M_PI) / (2 * M_PI)\<rceil>" by linarith
  then have "nat \<lceil>(phase - 2 * M_PI + M_PI) / (2 * M_PI)\<rceil> < nat \<lceil>(phase + M_PI) / (2 * M_PI)\<rceil>"
    unfolding c by linarith
  then show "(phase - 2 * M_PI, phase) \<in> measure (\<lambda>p. nat \<lceil>(p + M_PI) / (2 * M_PI)\<rceil>)"
    unfolding in_measure .
qed

function wrap_exact_up :: "real \<Rightarrow> real" where
  "wrap_exact_up phase =
     (if phase < - M_PI then wrap_exact_up (phase + 2 * M_PI) else phase)"
  by pat_completeness auto
termination
proof (relation "measure (\<lambda>p. nat \<lceil>(M_PI - p) / (2 * M_PI)\<rceil>)")
  show "wf (measure (\<lambda>p. nat \<lceil>(M_PI - p) / (2 * M_PI)\<rceil>))" by simp
next
  fix phase :: real
  assume a: "phase < - M_PI"
  have pos: "0 < M_PI" by (simp add: M_PI_def)
  have e: "(M_PI - (phase + 2 * M_PI)) / (2 * M_PI) = (M_PI - phase) / (2 * M_PI) - 1"
    using pos by (simp add: field_simps)
  have c: "\<lceil>(M_PI - (phase + 2 * M_PI)) / (2 * M_PI)\<rceil> = \<lceil>(M_PI - phase) / (2 * M_PI)\<rceil> - 1"
    unfolding e by simp
  have "1 < (M_PI - phase) / (2 * M_PI)" using a pos by (simp add: field_simps)
  then have "1 < \<lceil>(M_PI - phase) / (2 * M_PI)\<rceil>" by linarith
  then have "nat \<lceil>(M_PI - (phase + 2 * M_PI)) / (2 * M_PI)\<rceil> < nat \<lceil>(M_PI - phase) / (2 * M_PI)\<rceil>"
    unfolding c by linarith
  then show "(phase + 2 * M_PI, phase) \<in> measure (\<lambda>p. nat \<lceil>(M_PI - p) / (2 * M_PI)\<rceil>)"
    unfolding in_measure .
qed

declare wrap_exact_down.simps [simp del] wrap_exact_up.simps [simp del]

definition wrap_phase_exact :: "real \<Rightarrow> real" where
  "wrap_phase_exact phase = wrap_exact_up (wrap_exact_down phase)"


section \<open>WAV codec (phase\_voc.c, psola.c, helloworld.c)\<close>

text \<open>
  A file is the list of its bytes. \<open>AudioBuffer\<close> is the struct of the sources: the
  sample array with its \<open>length\<close> field is the list \<open>data\<close>, and \<open>sample_rate\<close> is a C
  \<open>int\<close>, 32 bits wide.

  \<open>write_wav_file\<close> and \<open>read_wav_file\<close> move floats between memory and the file as
  the four bytes of their object representation. The representation is the
  platform's and not part of the sources: it is the parameter \<open>float32_repr\<close>, the
  bit pattern of a value and the value of a bit pattern. Integers that \<open>fwrite\<close> and
  \<open>fread\<close> move in the same way are little-endian (\<open>le32\<close>, \<open>le16\<close>, read back by
  \<open>rd32\<close>, \<open>rd16\<close>), as on the x86 and ARM targets of the sources.
\<close>

type_synonym byte = "8 word"

record AudioBuffer =
  data :: "real list"
  sample_rate :: "32 word"

record float32_repr =
  float_bits :: "real \<Rightarrow> 32 word"
  bits_float :: "32 word \<Rightarrow> real"

definition ascii :: "string \<Rightarrow> byte list" where
  "ascii s = map of_char s"

definition le32 :: "32 word \<Rightarrow> byte list" where
  "le32 w = [ucast w, ucast (drop_bit 8 w), ucast (drop_bit 16 w), ucast (drop_bit 24 w)]"

definition le16 :: "16 word \<Rightarrow> byte list" where
  "le16 w = [ucast w, ucast (drop_bit 8 w)]"

definition rd32 :: "byte list \<Rightarrow> 32 word" where
  "rd32 bs = ucast (bs ! 0) OR push_bit 8 (ucast (bs ! 1)) OR push_bit 16 (ucast (bs ! 2))
             OR push_bit 24 (ucast (bs ! 3))"

definition rd16 :: "byte list \<Rightarrow> 16 word" where
  "rd16 bs = ucast (bs ! 0) OR push_bit 8 (ucast (bs ! 1))"

text \<open>\<open>wav_header\<close> of helloworld.c, byte by byte, returning the 44 bytes it stores.\<close>

definition wav_header :: "32 word \<Rightarrow> 32 word \<Rightarrow> 16 word \<Rightarrow> 16 word \<Rightarrow> byte list" where
  "wav_header nsamples fs bits ch =
     (let byteRate = fs * ucast ch * ucast (bits div 8) :: 32 word;
          blockAlign = ch * (bits div 8) :: 16 word;
          dataSize = nsamples * ucast blockAlign :: 32 word;
          riffSize = 36 + dataSize :: 32 word
      in [of_char CHR ''R'', of_char CHR ''I'', of_char CHR ''F'', of_char CHR ''F'',
          ucast (riffSize AND 255), ucast (drop_bit 8 riffSize AND 255),
          ucast (drop_bit 16 riffSize AND 255), ucast (drop_bit 24 riffSize AND 255),
          of_char CHR ''W'', of_char CHR ''A'', of_char CHR ''V'', of_char CHR ''E'',
          of_char CHR ''f'', of_char CHR ''m'', of_char CHR ''t'', of_char CHR '' '',
          16, 0, 0, 0,
          1, 0,
          ucast ch, 0,
          ucast (fs AND 255), ucast (drop_bit 8 fs AND 255),
          ucast (drop_bit 16 fs AND 255), ucast (drop_bit 24 fs AND 255),
          ucast (byteRate AND 255), ucast (drop_bit 8 byteRate AND 255),
          ucast (drop_bit 16 byteRate AND 255), ucast (drop_bit 24 byteRate AND 255),
          ucast (blockAlign AND 255), ucast (drop_bit 8 blockAlign AND 255),
          ucast (bits AND 255), ucast (drop_bit 8 bits AND 255),
          of_char CHR ''d'', of_char CHR ''a'', of_char CHR ''t'', of_char CHR ''a'',
          ucast (dataSize AND 255), ucast (drop_bit 8 dataSize AND 255),
          ucast (drop_bit 16 dataSize AND 255), ucast (drop_bit 24 dataSize AND 255)])"

text \<open>
  The ways \<open>read_wav_file\<close> fails. The first four are its \<open>return NULL\<close> statements.
  \<open>DivisionByZero\<close> is the integer division by a zero sample width or channel count,
  which the source performs before it looks at the format. \<open>Indeterminate\<close> stands for
  a run in which the source goes on with memory it never filled, because it does not
  check what \<open>fread\<close> returned: a file that ends inside the headers, or sample data
  shorter than the chunk size announces.
\<close>

datatype wav_error = CannotOpen | NotWav | NoDataChunk | Unsupported | DivisionByZero | Indeterminate

text \<open>
  The loop that looks for the \<open>data\<close> chunk, on the rest of the file. \<open>prev\<close> is what
  the variables \<open>chunk_id\<close> and \<open>chunk_size\<close> hold from the iteration before, if any:
  a last \<open>fread\<close> of fewer than four bytes overwrites only the front of \<open>chunk_id\<close>
  before the comparison after the loop. The result is the chunk size and the file
  from the first sample byte on.
\<close>

function find_data_chunk ::
  "byte list \<Rightarrow> (byte list \<times> 32 word) option \<Rightarrow> wav_error + (32 word \<times> byte list)" where
  "find_data_chunk f prev =
     (if length f < 4
      then (case prev of
              None \<Rightarrow> Inl Indeterminate
            | Some (chunk_id, chunk_size) \<Rightarrow>
                if f @ drop (length f) chunk_id = ascii ''data''
                then Inr (chunk_size, []) else Inl NoDataChunk)
      else if take 4 f = ascii ''data''
      then (if length f < 8 then Inl Indeterminate
            else Inr (rd32 (take 4 (drop 4 f)), drop 8 f))
      else if length f < 8 then Inl NoDataChunk
      else find_data_chunk (drop (8 + unat (rd32 (take 4 (drop 4 f)))) f)
             (Some (take 4 f, rd32 (take 4 (drop 4 f)))))"
  by pat_completeness auto
termination
  by (relation "measure (\<lambda>(f, prev). length f)") auto

declare find_data_chunk.simps [simp del]

text \<open>Element \<open>i\<close> of the buffer \<open>temp\<close> read as an array of \<open>short\<close> or of \<open>float\<close>.\<close>

definition short_at :: "byte list \<Rightarrow> nat \<Rightarrow> 16 word" where
  "short_at temp i = rd16 (take 2 (drop (2 * i) temp))"

definition float_at :: "float32_repr \<Rightarrow> byte list \<Rightarrow> nat \<Rightarrow> real" where
  "float_at F temp i = bits_float F (rd32 (take 4 (drop (4 * i) temp)))"

text \<open>\<open>read_wav_file\<close>; the argument is the content of the file if \<open>fopen\<close> succeeds.\<close>

definition read_wav_file :: "float32_repr \<Rightarrow> byte list option \<Rightarrow> wav_error + AudioBuffer" where
  "read_wav_file F file =
     (case file of
        None \<Rightarrow> Inl CannotOpen
      | Some f \<Rightarrow>
          if length f < 12 then Inl Indeterminate
          else if take 4 f \<noteq> ascii ''RIFF'' \<or> take 4 (drop 8 f) \<noteq> ascii ''WAVE'' then Inl NotWav
          else if length f < 36 then Inl Indeterminate
          else
            let fmt_size = rd32 (take 4 (drop 16 f));
                audio_format = rd16 (take 2 (drop 20 f));
                num_channels = rd16 (take 2 (drop 22 f));
                sample_rate = rd32 (take 4 (drop 24 f));
                bits_per_sample = rd16 (take 2 (drop 34 f));
                after_fmt = (if fmt_size > 16 then drop (36 + unat (fmt_size - 16)) f
                             else drop 36 f)
            in case find_data_chunk after_fmt None of
                 Inl e \<Rightarrow> Inl e
               | Inr (chunk_size, rest) \<Rightarrow>
                   let bytes = (word_of_int (sint bits_per_sample sdiv 8) :: 32 word);
                       channels = (scast num_channels :: 32 word)
                   in if bytes = 0 \<or> channels = 0 then Inl DivisionByZero
                      else
                        let num_samples = unat (chunk_size div bytes div channels);
                            temp = take (unat chunk_size) rest
                        in if audio_format = 1 \<and> bits_per_sample = 16
                           then (if num_channels = 2
                                 then (if length temp < 4 * num_samples then Inl Indeterminate
                                       else Inr \<lparr>data = map (\<lambda>i. real_of_int (sint (short_at temp (i * 2))
                                                          + sint (short_at temp (i * 2 + 1))) / 65536)
                                                       [0..<num_samples],
                                                 sample_rate = sample_rate\<rparr>)
                                 else (if length temp < 2 * num_samples then Inl Indeterminate
                                       else Inr \<lparr>data = map (\<lambda>i. real_of_int (sint (short_at temp i)) / 32768)
                                                       [0..<num_samples],
                                                 sample_rate = sample_rate\<rparr>))
                           else if audio_format = 3 \<and> bits_per_sample = 32
                           then (if num_channels = 2
                                 then (if length temp < 8 * num_samples then Inl Indeterminate
                                       else Inr \<lparr>data = map (\<lambda>i. (float_at F temp (i * 2)
                                                          + float_at F temp (i * 2 + 1)) / 2)
                                                       [0..<num_samples],
                                                 sample_rate = sample_rate\<rparr>)
                                 else (if length temp < 4 * num_samples then Inl Indeterminate
                                       else Inr \<lparr>data = map (\<lambda>i. float_at F temp i) [0..<num_samples],
                                                 sample_rate = sample_rate\<rparr>))
                           else Inl Unsupported)"

text \<open>
  \<open>write_wav_file\<close>: the value returned and, if \<open>fopen\<close> succeeds, the bytes written.
  The C \<open>int\<close> values \<open>data_size\<close>, \<open>file_size\<close> and \<open>byte_rate\<close> are 32-bit words.
\<close>

definition float_payload :: "float32_repr \<Rightarrow> real list \<Rightarrow> byte list" where
  "float_payload F xs = concat (map (\<lambda>x. le32 (float_bits F x)) xs)"

definition write_wav_file :: "float32_repr \<Rightarrow> bool \<Rightarrow> AudioBuffer \<Rightarrow> int \<times> byte list option" where
  "write_wav_file F fopen_ok audio =
     (if \<not> fopen_ok then (- 1, None)
      else
        let data_size = (of_nat (length (data audio)) * 4 :: 32 word);
            file_size = 36 + data_size;
            fmt_size = (16 :: 32 word);
            audio_format = (3 :: 16 word);
            num_channels = (1 :: 16 word);
            byte_rate = sample_rate audio * 4;
            block_align = (4 :: 16 word);
            bits_per_sample = (32 :: 16 word)
        in (0, Some (ascii ''RIFF'' @ le32 file_size @ ascii ''WAVE''
                     @ ascii ''fmt '' @ le32 fmt_size @ le16 audio_format @ le16 num_channels
                     @ le32 (sample_rate audio) @ le32 byte_rate @ le16 block_align
                     @ le16 bits_per_sample
                     @ ascii ''data'' @ le32 data_size
                     @ float_payload F (data audio))))"

text \<open>
  The SD-card pair of helloworld.c. \<open>float_to_pcm16\<close> is the body of the conversion
  loop of \<open>save_wav_to_sd\<close> and \<open>pcm16_to_float\<close> that of \<open>load_wav_from_sd\<close>. The
  storage layer is taken to work: an opened file accepts every write and returns on
  a read the bytes it has. \<open>save_chunks\<close> is the writing loop, 1024 samples at a time.
\<close>

definition float_to_pcm16 :: "real \<Rightarrow> 16 word" where
  "float_to_pcm16 sample0 =
     (let sample1 = (if sample0 > 1 then 1 else sample0);
          sample2 = (if sample1 < - 1 then - 1 else sample1)
      in word_of_int (c_trunc (sample2 * 32767)))"

definition pcm16_to_float :: "16 word \<Rightarrow> real" where
  "pcm16_to_float w = real_of_int (sint w) / 32768"

function save_chunks :: "real list \<Rightarrow> nat \<Rightarrow> byte list" where
  "save_chunks samples samples_written =
     (if samples_written < length samples
      then let samples_to_write = (if length samples - samples_written > 1024 then 1024
                                   else length samples - samples_written);
               chunk_buffer = map (\<lambda>i. float_to_pcm16 (samples ! (samples_written + i)))
                                  [0..<samples_to_write]
           in concat (map le16 chunk_buffer)
              @ save_chunks samples (samples_written + samples_to_write)
      else [])"
  by pat_completeness auto
termination
  by (relation "measure (\<lambda>(samples, samples_written). length samples - samples_written)") auto

declare save_chunks.simps [simp del]

definition save_wav_to_sd :: "bool \<Rightarrow> AudioBuffer \<Rightarrow> int \<times> byte list option" where
  "save_wav_to_sd f_open_ok audio =
     (let hdr = wav_header (of_nat (length (data audio))) (sample_rate audio) 16 1
      in if \<not> f_open_ok then (- 1, None)
         else (0, Some (hdr @ save_chunks (data audio) 0)))"

text \<open>
  The reading loop of \<open>load_wav_from_sd\<close>. It advances by the number of samples the
  read returned, so on a file shorter than its header announces it stops advancing
  and never ends: the result \<open>None\<close>. For \<open>load_wav_from_sd\<close> the outer \<open>None\<close> is that
  non-termination, \<open>Some None\<close> is the \<open>NULL\<close> result and \<open>Some (Some b)\<close> a buffer.
\<close>

partial_function (option) load_chunks ::
  "byte list \<Rightarrow> nat \<Rightarrow> nat \<Rightarrow> real list \<Rightarrow> real list option" where
  "load_chunks f num_samples samples_read acc =
     (if samples_read < num_samples
      then let samples_to_read = (if num_samples - samples_read > 1024 then 1024
                                  else num_samples - samples_read);
               chunk_buffer = take (samples_to_read * 2) f;
               br = length chunk_buffer
           in load_chunks (drop br f) num_samples (samples_read + br div 2)
                (acc @ map (\<lambda>i. pcm16_to_float (short_at chunk_buffer i)) [0..<br div 2])
      else Some acc)"

definition load_wav_from_sd :: "byte list option \<Rightarrow> AudioBuffer option option" where
  "load_wav_from_sd file =
     (case file of
        None \<Rightarrow> Some None
      | Some f \<Rightarrow>
          let hdr = take 44 f in
          if length hdr \<noteq> 44 then Some None
          else if hdr ! 0 \<noteq> of_char CHR ''R'' \<or> hdr ! 1 \<noteq> of_char CHR ''I''
                  \<or> hdr ! 2 \<noteq> of_char CHR ''F'' \<or> hdr ! 3 \<noteq> of_char CHR ''F''
                  \<or> hdr ! 8 \<noteq> of_char CHR ''W'' \<or> hdr ! 9 \<noteq> of_char CHR ''A''
                  \<or> hdr ! 10 \<noteq> of_char CHR ''V'' \<or> hdr ! 11 \<noteq> of_char CHR ''E''
          then Some None
          else
            let sample_rate = rd32 (take 4 (drop 24 hdr));
                bits_per_sample = rd16 (take 2 (drop 34 hdr));
                data_size = rd32 (take 4 (drop 40 hdr))
            in if bits_per_sample \<noteq> 16 then Some None
               else
                 let num_samples = unat (data_size div 2)
                 in case load_chunks (drop 44 f) num_samples 0 [] of
                      None \<Rightarrow> None
                    | Some samples \<Rightarrow> Some (Some \<lparr>data = samples, sample_rate = sample_rate\<rparr>))"

text \<open>
  The 16-bit sample bytes of a buffer, and what a sample becomes on the way through
  the 16-bit file.
\<close>

definition pcm_payload :: "real list \<Rightarrow> byte list" where
  "pcm_payload xs = concat (map (\<lambda>x. le16 (float_to_pcm16 x)) xs)"

definition pcm_round_trip :: "real \<Rightarrow> real" where
  "pcm_round_trip x = pcm16_to_float (float_to_pcm16 x)"


text \<open>
  The header as the specification words it, for a format tag, a channel count, a
  sample rate, a sample width in bits and a count of data bytes. Every field has the
  width the format gives it, so a value that does not fit wraps around.
\<close>

definition canonical_header ::
  "16 word \<Rightarrow> 16 word \<Rightarrow> 32 word \<Rightarrow> 16 word \<Rightarrow> nat \<Rightarrow> byte list" where
  "canonical_header format_tag channels rate bits data_bytes =
     ascii ''RIFF'' @ le32 (of_nat (36 + data_bytes)) @ ascii ''WAVE''
     @ ascii ''fmt '' @ le32 16 @ le16 format_tag @ le16 channels @ le32 rate
     @ le32 (rate * ucast channels * ucast (bits div 8))
     @ le16 (channels * (bits div 8)) @ le16 bits
     @ ascii ''data'' @ le32 (of_nat data_bytes)"

definition riff_size_field :: "byte list \<Rightarrow> nat" where
  "riff_size_field file = unat (rd32 (take 4 (drop 4 file)))"

definition data_size_field :: "byte list \<Rightarrow> nat" where
  "data_size_field file = unat (rd32 (take 4 (drop 40 file)))"

section \<open>PSOLA engine (psola.c)\<close>

text \<open>
  Pitch marks (\<open>PitchMarks\<close>, a growable array of positions with its count) are a
  list of positions; \<open>pitch_marks_add\<close> is appending.
\<close>

definition MAX_PERIOD :: int where "MAX_PERIOD = 2048"
definition MIN_PERIOD :: int where "MIN_PERIOD = 32"

definition hanning :: "int \<Rightarrow> int \<Rightarrow> real" where
  "hanning n N = 0.5 * (1 - cos (2 * M_PI * real_of_int n / real_of_int (N - 1)))"

definition detect_pitch_period :: "real list \<Rightarrow> int \<Rightarrow> int \<Rightarrow> 32 word \<Rightarrow> real" where
  "detect_pitch_period buffer start len rate =
     (if start + MAX_PERIOD \<ge> len then 0
      else
        let search_length = (if len - start < MAX_PERIOD then len - start else MAX_PERIOD);
            (max_corr, best_lag) =
              fold (\<lambda>lag (max_corr, best_lag).
                      let corr = (\<Sum>i\<leftarrow>[0..search_length - lag - 1].
                                    buffer ! nat (start + i) * buffer ! nat (start + i + lag));
                          energy = (\<Sum>i\<leftarrow>[0..search_length - lag - 1].
                                    buffer ! nat (start + i) * buffer ! nat (start + i))
                      in if energy > 0
                         then (if corr / energy > max_corr then (corr / energy, lag)
                               else (max_corr, best_lag))
                         else (max_corr, best_lag))
                   [MIN_PERIOD..search_length - 1] (0, MIN_PERIOD)
        in if max_corr > 0.3 then real_of_int best_lag else 0)"

text \<open>
  The loop of \<open>detect_pitch_marks\<close>. Every iteration advances by at least one sample:
  a period above zero is a lag, a whole number of samples.
\<close>

function mark_loop :: "AudioBuffer \<Rightarrow> int \<Rightarrow> int list \<Rightarrow> int list" where
  "mark_loop audio position marks =
     (if position < int (length (data audio))
      then
        let period = detect_pitch_period (data audio) position (int (length (data audio)))
                       (sample_rate audio);
            position' = (if period > 0 \<and> period < real_of_int MAX_PERIOD
                         then position + c_trunc period else position + 200);
            marks' = (if position' < int (length (data audio)) then marks @ [position'] else marks)
        in mark_loop audio position' marks'
      else marks)"
  by pat_completeness auto
termination
proof (relation "measure (\<lambda>(audio, position, marks). nat (int (length (data audio)) - position))")
  show "wf (measure (\<lambda>(audio, position, marks). nat (int (length (data audio)) - position)))"
    by simp
next
  fix audio :: AudioBuffer and position :: int and marks :: "int list" and period position' marks'
  assume lt: "position < int (length (data audio))"
    and p: "period = detect_pitch_period (data audio) position (int (length (data audio)))
                       (sample_rate audio)"
    and p': "position' = (if period > 0 \<and> period < real_of_int MAX_PERIOD
                         then position + c_trunc period else position + 200)"
  have "\<exists>k. period = real_of_int k"
    unfolding p detect_pitch_period_def Let_def
    by (auto split: prod.splits intro: exI [of _ 0])
  then obtain k where k: "period = real_of_int k" ..
  have "position < position'"
    unfolding p' k by (auto simp: c_trunc_def)
  with lt show "((audio, position', marks'), (audio, position, marks))
          \<in> measure (\<lambda>(audio, position, marks). nat (int (length (data audio)) - position))"
    by simp
qed

declare mark_loop.simps [simp del]

definition detect_pitch_marks :: "AudioBuffer \<Rightarrow> int list" where
  "detect_pitch_marks audio = mark_loop audio 0 [0]"

definition extract_grain :: "real list \<Rightarrow> int \<Rightarrow> int \<Rightarrow> int \<Rightarrow> real list" where
  "extract_grain input input_length center grain_size =
     (let half_size = grain_size sdiv 2
      in map (\<lambda>i. let pos = center - half_size + i
                  in if pos \<ge> 0 \<and> pos < input_length
                     then input ! nat pos * hanning i grain_size else 0)
             [0..grain_size - 1])"

definition overlap_add :: "real list \<Rightarrow> real list \<Rightarrow> int \<Rightarrow> int \<Rightarrow> int \<Rightarrow> real list" where
  "overlap_add output grain center grain_size output_length =
     (let half_size = grain_size sdiv 2
      in fold (\<lambda>i out. let pos = center - half_size + i
                        in if pos \<ge> 0 \<and> pos < output_length
                           then out[nat pos := out ! nat pos + grain ! nat i] else out)
              [0..grain_size - 1] output)"

text \<open>
  Step 3 of \<open>psola_pitch_shift\<close>: the output marks. \<open>periods\<close> has one entry less than
  there are input marks, and every step advances by at least 20 samples.
\<close>

function output_mark_loop ::
  "int \<Rightarrow> int list \<Rightarrow> real \<Rightarrow> int \<Rightarrow> int \<Rightarrow> int list \<Rightarrow> int list" where
  "output_mark_loop input_length periods pitch_ratio out_pos in_idx output_marks =
     (if out_pos < input_length \<and> in_idx < int (length periods)
      then
        let out_period0 = c_trunc (real_of_int (periods ! nat in_idx) / pitch_ratio);
            out_period = (if out_period0 < 20 then 20 else out_period0);
            out_pos' = out_pos + out_period;
            output_marks' = (if out_pos' < input_length then output_marks @ [out_pos']
                             else output_marks);
            in_idx1 = in_idx + 1;
            in_idx' = (if in_idx1 \<ge> int (length periods) \<and> out_pos' < input_length
                       then int (length periods) - 1 else in_idx1)
        in output_mark_loop input_length periods pitch_ratio out_pos' in_idx' output_marks'
      else output_marks)"
  by pat_completeness auto
termination
  by (relation "measure (\<lambda>(input_length, periods, pitch_ratio, out_pos, in_idx, output_marks).
                  nat (input_length - out_pos))") auto

declare output_mark_loop.simps [simp del]

text \<open>
  Step 6, one output mark at a time: the search for the closest input mark, then the
  body of the synthesis loop, whose two safety checks leave the output as it is.
\<close>

definition closest_input_mark :: "int list \<Rightarrow> int \<Rightarrow> nat" where
  "closest_input_mark input_marks out_mark =
     fst (fold (\<lambda>j (closest_in_mark, min_dist).
                  let dist = \<bar>input_marks ! j - out_mark\<bar>
                  in if dist < min_dist then (j, dist) else (closest_in_mark, min_dist))
               [1..<length input_marks] (0, \<bar>input_marks ! 0 - out_mark\<bar>))"

definition place_grain ::
  "AudioBuffer \<Rightarrow> int list \<Rightarrow> int \<Rightarrow> int \<Rightarrow> real list \<Rightarrow> real list" where
  "place_grain input input_marks grain_size out_mark output =
     (let input_length = int (length (data input));
          closest_in_mark = closest_input_mark input_marks out_mark;
          in_mark = input_marks ! closest_in_mark
      in if in_mark < 0 \<or> in_mark \<ge> input_length then output
         else if out_mark < 0 \<or> out_mark \<ge> int (length output) then output
         else
           let local_grain_size =
                 (if int closest_in_mark < int (length input_marks) - 1
                  then (let local_period = input_marks ! (closest_in_mark + 1) - in_mark
                        in if local_period > 20 \<and> local_period < MAX_PERIOD
                           then (if local_period * 2 > grain_size then grain_size
                                 else local_period * 2)
                           else grain_size)
                  else grain_size);
               grain = extract_grain (data input) input_length in_mark local_grain_size
           in overlap_add output grain out_mark local_grain_size (int (length output)))"

text \<open>
  The final normalisation, the same statements at the end of both engines: the loop
  that finds \<open>max_val\<close>, then the rescaling.
\<close>

definition max_abs :: "real list \<Rightarrow> real" where
  "max_abs xs = fold (\<lambda>x max_val. if \<bar>x\<bar> > max_val then \<bar>x\<bar> else max_val) xs 0"

definition final_normalization :: "real list \<Rightarrow> real list" where
  "final_normalization xs =
     (let max_val = max_abs xs
      in if max_val > 0.001
         then (let norm_factor = 0.9 / max_val in map (\<lambda>x. x * norm_factor) xs)
         else xs)"

text \<open>
  \<open>psola_pitch_shift\<close>: steps 2 to 6 (\<open>psola_grains\<close>, the output before normalisation),
  the function after its two clamping statements (\<open>psola_clamped\<close>), the clamping
  statements themselves, and the whole.
\<close>

definition psola_grains :: "AudioBuffer \<Rightarrow> real \<Rightarrow> int list \<Rightarrow> real list" where
  "psola_grains input pitch_ratio input_marks =
     (let input_length = int (length (data input));
          count = int (length input_marks);
          periods = map (\<lambda>i. input_marks ! (i + 1) - input_marks ! i) [0..<length input_marks - 1];
          total_period = sum_list periods;
          avg_period = total_period sdiv (count - 1);
          output_marks = output_mark_loop input_length periods pitch_ratio 0 0 [0];
          grain_size0 = avg_period * 2;
          grain_size1 = (if grain_size0 < 64 then 64 else grain_size0);
          grain_size = (if grain_size1 > 4096 then 4096 else grain_size1)
      in fold (place_grain input input_marks grain_size) output_marks
              (replicate (length (data input)) 0))"

definition psola_clamped :: "AudioBuffer \<Rightarrow> real \<Rightarrow> AudioBuffer option" where
  "psola_clamped input pitch_ratio =
     (let input_marks = detect_pitch_marks input
      in if length input_marks < 2 then None
         else Some \<lparr>data = final_normalization (psola_grains input pitch_ratio input_marks),
                    sample_rate = sample_rate input\<rparr>)"

definition clamp_pitch_ratio :: "real \<Rightarrow> real" where
  "clamp_pitch_ratio pitch_ratio =
     (let pitch_ratio1 = (if pitch_ratio < 0.5 then 0.5 else pitch_ratio)
      in if pitch_ratio1 > 2.0 then 2.0 else pitch_ratio1)"

definition psola_pitch_shift :: "AudioBuffer \<Rightarrow> real \<Rightarrow> AudioBuffer option" where
  "psola_pitch_shift input pitch_ratio = psola_clamped input (clamp_pitch_ratio pitch_ratio)"


section \<open>Phase vocoder engine (phase\_voc.c)\<close>

definition FFT_SIZE :: int where "FFT_SIZE = 2048"
definition HOP_SIZE :: int where "HOP_SIZE = 512"
definition OVERLAP_FACTOR :: int where "OVERLAP_FACTOR = FFT_SIZE sdiv HOP_SIZE"

text \<open>The struct \<open>Complex\<close>; its fields \<open>real\<close> and \<open>imag\<close> are \<open>real_c\<close> and \<open>imag_c\<close>.\<close>

record Complex =
  real_c :: real
  imag_c :: real

text \<open>
  \<open>fft\<close> works in place on the first \<open>N\<close> entries of its array; here \<open>N\<close> is the length
  of the list and the result is the array after the call.
\<close>

function fft :: "Complex list \<Rightarrow> Complex list" where
  "fft x =
     (let N = length x
      in if N \<le> 1 then x
         else
           let even = fft (map (\<lambda>i. x ! (i * 2)) [0..<N div 2]);
               odd = fft (map (\<lambda>i. x ! (i * 2 + 1)) [0..<N div 2]);
               t = (\<lambda>k. let angle = - 2 * M_PI * real k / real N
                         in \<lparr>real_c = cos angle * real_c (odd ! k) - sin angle * imag_c (odd ! k),
                             imag_c = cos angle * imag_c (odd ! k) + sin angle * real_c (odd ! k)\<rparr>)
           in map (\<lambda>k. \<lparr>real_c = real_c (even ! k) + real_c (t k),
                          imag_c = imag_c (even ! k) + imag_c (t k)\<rparr>) [0..<N div 2]
              @ map (\<lambda>k. \<lparr>real_c = real_c (even ! k) - real_c (t k),
                            imag_c = imag_c (even ! k) - imag_c (t k)\<rparr>) [0..<N div 2]
              @ drop (2 * (N div 2)) x)"
  by pat_completeness auto
termination
  by (relation "measure length") auto

declare fft.simps [simp del]

definition ifft :: "Complex list \<Rightarrow> Complex list" where
  "ifft x =
     (let N = length x;
          conjugated = map (\<lambda>c. c\<lparr>imag_c := - imag_c c\<rparr>) x;
          transformed = fft conjugated
      in map (\<lambda>c. \<lparr>real_c = real_c c / real N, imag_c = - imag_c c / real N\<rparr>) transformed)"

definition magnitude :: "Complex \<Rightarrow> real" where
  "magnitude c = sqrt (real_c c * real_c c + imag_c c * imag_c c)"

text \<open>The library function \<open>atan2f\<close> on finite arguments.\<close>

definition atan2f :: "real \<Rightarrow> real \<Rightarrow> real" where
  "atan2f y x =
     (if x > 0 then arctan (y / x)
      else if x < 0 \<and> y \<ge> 0 then arctan (y / x) + pi
      else if x < 0 then arctan (y / x) - pi
      else if y > 0 then pi / 2
      else if y < 0 then - pi / 2
      else 0)"

definition phase :: "Complex \<Rightarrow> real" where
  "phase c = atan2f (imag_c c) (real_c c)"


text \<open>
  The buffers of \<open>phase_vocoder_pitch_shift\<close> that survive from one frame to the next.
  \<open>fft_out\<close> is among them: \<open>ifft\<close> works in place, and the mirror loop reads entry
  \<open>FFT_SIZE / 2\<close> before anything in the frame has written it.
\<close>

record pv_state =
  last_phase :: "real list"
  sum_phase :: "real list"
  fft_out :: "Complex list"
  temp_output :: "real list"
  output_pos :: int

text \<open>The body of the frame loop, steps 1 to 6 and the advance of \<open>output_pos\<close>.\<close>

definition process_frame ::
  "real list \<Rightarrow> real list \<Rightarrow> int \<Rightarrow> int \<Rightarrow> int \<Rightarrow> int \<Rightarrow> pv_state \<Rightarrow> pv_state" where
  "process_frame input_data window analysis_hop synthesis_hop stretched_length input_pos st =
     (let fft_in0 = map (\<lambda>i. \<lparr>real_c = input_data ! nat (input_pos + i) * window ! nat i,
                               imag_c = 0\<rparr>) [0..FFT_SIZE - 1];
          fft_in = fft fft_in0;
          magnitude_buf = map magnitude fft_in;
          phase_buf = map phase fft_in;
          st1 = fold (\<lambda>i s.
                   let phase_diff0 = phase_buf ! nat i - last_phase s ! nat i;
                       s1 = s\<lparr>last_phase := (last_phase s)[nat i := phase_buf ! nat i]\<rparr>;
                       phase_diff = wrap_phase_exact phase_diff0;
                       expected_phase_diff =
                         2 * M_PI * real_of_int i * real_of_int analysis_hop / real_of_int FFT_SIZE;
                       freq_deviation = wrap_phase_exact (phase_diff - expected_phase_diff);
                       true_freq = 2 * M_PI * real_of_int i / real_of_int FFT_SIZE
                                   + freq_deviation / real_of_int analysis_hop;
                       sum_i = sum_phase s1 ! nat i + true_freq * real_of_int synthesis_hop
                   in s1\<lparr>sum_phase := (sum_phase s1)[nat i := sum_i],
                         fft_out := (fft_out s1)[nat i :=
                            \<lparr>real_c = magnitude_buf ! nat i * cos sum_i,
                             imag_c = magnitude_buf ! nat i * sin sum_i\<rparr>]\<rparr>)
                 [0..FFT_SIZE sdiv 2 - 1] st;
          mirrored = fold (\<lambda>i out. out[nat i :=
                              \<lparr>real_c = real_c (out ! nat (FFT_SIZE - i)),
                               imag_c = - imag_c (out ! nat (FFT_SIZE - i))\<rparr>])
                       [FFT_SIZE sdiv 2..FFT_SIZE - 1] (fft_out st1);
          inverse = ifft mirrored;
          temp' = fold (\<lambda>i t. if output_pos st + i < stretched_length
                               then t[nat (output_pos st + i) :=
                                        t ! nat (output_pos st + i)
                                        + real_c (inverse ! nat i) * window ! nat i]
                               else t)
                    [0..FFT_SIZE - 1] (temp_output st1)
      in st1\<lparr>fft_out := inverse, temp_output := temp',
              output_pos := output_pos st + synthesis_hop\<rparr>)"

text \<open>The frame loop with its two \<open>break\<close> statements.\<close>

function frame_loop ::
  "real list \<Rightarrow> real list \<Rightarrow> int \<Rightarrow> int \<Rightarrow> int \<Rightarrow> int \<Rightarrow> int \<Rightarrow> pv_state \<Rightarrow> pv_state" where
  "frame_loop input_data window analysis_hop synthesis_hop stretched_length num_frames frame st =
     (if frame < num_frames
      then
        let input_pos = frame * analysis_hop
        in if input_pos + FFT_SIZE > int (length input_data) then st
           else if output_pos st + FFT_SIZE > stretched_length then st
           else frame_loop input_data window analysis_hop synthesis_hop stretched_length
                  num_frames (frame + 1)
                  (process_frame input_data window analysis_hop synthesis_hop stretched_length
                     input_pos st)
      else st)"
  by pat_completeness auto
termination
  by (relation "measure (\<lambda>(input_data, window, analysis_hop, synthesis_hop, stretched_length,
                           num_frames, frame, st). nat (num_frames - frame))") auto

declare frame_loop.simps [simp del]

definition pv_num_frames :: "int \<Rightarrow> int" where
  "pv_num_frames input_length = (input_length - FFT_SIZE) sdiv HOP_SIZE"

text \<open>
  The first half of \<open>phase_vocoder_pitch_shift\<close>, up to and including the overlap
  normalisation of the stretched signal. \<open>calloc\<close> gives zeroed buffers; \<open>fft_out\<close>
  comes from \<open>malloc\<close>, so its initial contents are whatever the allocator hands
  out: the parameter \<open>uninit\<close>, one value per index.
\<close>

definition pv_time_stretch :: "(nat \<Rightarrow> Complex) \<Rightarrow> AudioBuffer \<Rightarrow> real \<Rightarrow> pv_state" where
  "pv_time_stretch uninit input pitch_ratio =
     (let time_stretch_ratio = pitch_ratio;
          stretched_length = c_trunc (real (length (data input)) * time_stretch_ratio * 1.2);
          window = map (\<lambda>i. hanning i FFT_SIZE) [0..FFT_SIZE - 1];
          analysis_hop = HOP_SIZE;
          synthesis_hop0 = c_trunc (real_of_int HOP_SIZE * time_stretch_ratio);
          synthesis_hop = (if synthesis_hop0 < 1 then 1 else synthesis_hop0);
          num_frames = pv_num_frames (int (length (data input)));
          st0 = \<lparr>last_phase = replicate (nat FFT_SIZE) 0,
                 sum_phase = replicate (nat FFT_SIZE) 0,
                 fft_out = map uninit [0..<nat FFT_SIZE],
                 temp_output = replicate (nat stretched_length) 0,
                 output_pos = 0\<rparr>;
          st = frame_loop (data input) window analysis_hop synthesis_hop stretched_length
                 num_frames 0 st0;
          overlap_norm = 2 / real_of_int OVERLAP_FACTOR
      in st\<lparr>temp_output :=
               map (\<lambda>i. if int i < output_pos st \<and> int i < stretched_length
                         then temp_output st ! i * overlap_norm else temp_output st ! i)
                   [0..<length (temp_output st)]\<rparr>)"

text \<open>Linear-interpolation resampling back to the input's length.\<close>

definition pv_resample :: "int \<Rightarrow> real list \<Rightarrow> int \<Rightarrow> real list" where
  "pv_resample output_length temp output_position =
     (let ratio = real_of_int output_position / real_of_int output_length
      in map (\<lambda>i. let pos = real_of_int i * ratio;
                      idx = c_trunc pos;
                      frac = pos - real_of_int idx
                  in if idx + 1 < output_position
                     then temp ! nat idx * (1 - frac) + temp ! nat (idx + 1) * frac
                     else if idx < output_position then temp ! nat idx
                     else 0)
             [0..output_length - 1])"

text \<open>
  \<open>phase_vocoder_pitch_shift\<close> after its two clamping statements: every later use of
  \<open>pitch_ratio\<close> in the source reads the variable the clamp has overwritten.
\<close>

definition pv_resampled :: "(nat \<Rightarrow> Complex) \<Rightarrow> AudioBuffer \<Rightarrow> real \<Rightarrow> real list" where
  "pv_resampled uninit input pitch_ratio =
     (let st = pv_time_stretch uninit input pitch_ratio
      in pv_resample (int (length (data input))) (temp_output st) (output_pos st))"

definition pv_clamped :: "(nat \<Rightarrow> Complex) \<Rightarrow> AudioBuffer \<Rightarrow> real \<Rightarrow> AudioBuffer" where
  "pv_clamped uninit input pitch_ratio =
     \<lparr>data = final_normalization (pv_resampled uninit input pitch_ratio),
      sample_rate = sample_rate input\<rparr>"

definition phase_vocoder_pitch_shift ::
  "(nat \<Rightarrow> Complex) \<Rightarrow> AudioBuffer \<Rightarrow> real \<Rightarrow> AudioBuffer" where
  "phase_vocoder_pitch_shift uninit input pitch_ratio =
     pv_clamped uninit input (clamp_pitch_ratio pitch_ratio)"



section \<open>C floats: NaN and the infinities\<close>

text \<open>
  A \<open>float\<close> variable can also hold NaN or an infinity. Where a property depends on
  what the source does with such a value, the code is embedded a second time, over
  \<open>c_float\<close>: a finite number, plus or minus infinity, or NaN. The operations follow
  IEEE 754 on the special values: a comparison with NaN is false, arithmetic on NaN
  gives NaN, and so do \<open>inf - inf\<close>, \<open>0 * inf\<close> and \<open>inf / inf\<close>. A result on finite
  numbers is not rounded, and one that exceeds \<open>FLT_MAX\<close> in magnitude is the infinity of
  its sign: \<open>fl_result\<close>. Zero has no sign, so a division of a non-zero number by zero
  takes the sign of the dividend; the divisions of the sources are behind a guard
  \<open>> 0\<close>.
\<close>

datatype c_float = Num real | PosInf | NegInf | NaN

definition FLT_MAX :: real where
  "FLT_MAX = (2 ^ 24 - 1) * 2 ^ 104"

definition fl_result :: "real \<Rightarrow> c_float" where
  "fl_result r = (if r > FLT_MAX then PosInf else if r < - FLT_MAX then NegInf else Num r)"

text \<open>The comparisons \<open><\<close>, \<open>>\<close> and \<open><=\<close> of C.\<close>

fun fl_less :: "c_float \<Rightarrow> c_float \<Rightarrow> bool" where
  "fl_less NaN b = False"
| "fl_less a NaN = False"
| "fl_less (Num a) (Num b) = (a < b)"
| "fl_less (Num a) PosInf = True"
| "fl_less (Num a) NegInf = False"
| "fl_less PosInf b = False"
| "fl_less NegInf NegInf = False"
| "fl_less NegInf b = True"

definition fl_greater :: "c_float \<Rightarrow> c_float \<Rightarrow> bool" where
  "fl_greater a b = fl_less b a"

definition fl_less_eq :: "c_float \<Rightarrow> c_float \<Rightarrow> bool" where
  "fl_less_eq a b = (a \<noteq> NaN \<and> b \<noteq> NaN \<and> \<not> fl_less b a)"

fun fl_add :: "c_float \<Rightarrow> c_float \<Rightarrow> c_float" where
  "fl_add NaN b = NaN"
| "fl_add a NaN = NaN"
| "fl_add (Num a) (Num b) = fl_result (a + b)"
| "fl_add PosInf NegInf = NaN"
| "fl_add NegInf PosInf = NaN"
| "fl_add PosInf b = PosInf"
| "fl_add a PosInf = PosInf"
| "fl_add NegInf b = NegInf"
| "fl_add a NegInf = NegInf"

fun fl_mul :: "c_float \<Rightarrow> c_float \<Rightarrow> c_float" where
  "fl_mul NaN b = NaN"
| "fl_mul a NaN = NaN"
| "fl_mul (Num a) (Num b) = fl_result (a * b)"
| "fl_mul (Num a) PosInf = (if a = 0 then NaN else if a > 0 then PosInf else NegInf)"
| "fl_mul (Num a) NegInf = (if a = 0 then NaN else if a > 0 then NegInf else PosInf)"
| "fl_mul PosInf (Num b) = (if b = 0 then NaN else if b > 0 then PosInf else NegInf)"
| "fl_mul NegInf (Num b) = (if b = 0 then NaN else if b > 0 then NegInf else PosInf)"
| "fl_mul PosInf PosInf = PosInf"
| "fl_mul PosInf NegInf = NegInf"
| "fl_mul NegInf PosInf = NegInf"
| "fl_mul NegInf NegInf = PosInf"






text \<open>
  The check of the ratio in \<open>main\<close> of \<open>phase_voc.c\<close> and \<open>psola.c\<close>
  (\<open>if (pitch_ratio <= 0.0f)\<close>, after \<open>atof\<close>), and the two clamping statements at the
  head of \<open>phase_vocoder_pitch_shift\<close> and \<open>psola_pitch_shift\<close>, on any value a
  \<open>float\<close> can hold. On a finite number the clamping statements are
  \<open>clamp_pitch_ratio\<close>.
\<close>

definition main_rejects_ratio :: "c_float \<Rightarrow> bool" where
  "main_rejects_ratio pitch_ratio = fl_less_eq pitch_ratio (Num 0.0)"

definition clamp_statements :: "c_float \<Rightarrow> c_float" where
  "clamp_statements pitch_ratio =
     (let pitch_ratio1 = (if fl_less pitch_ratio (Num 0.5) then Num 0.5 else pitch_ratio)
      in if fl_greater pitch_ratio1 (Num 2.0) then Num 2.0 else pitch_ratio1)"

text \<open>
  \<open>psola.c\<close> over \<open>c_float\<close> samples: the same statements as in the section on the
  PSOLA engine, with the float operations in place of the real ones. The pitch marks
  are whole numbers either way, so \<open>output_mark_loop\<close> and \<open>closest_input_mark\<close> are
  the functions of that section; the ratio is a finite number.
\<close>

record AudioBuffer_fl =
  data_fl :: "c_float list"
  sample_rate_fl :: "32 word"





definition extract_grain_fl :: "c_float list \<Rightarrow> int \<Rightarrow> int \<Rightarrow> int \<Rightarrow> c_float list" where
  "extract_grain_fl input input_length center grain_size =
     (let half_size = grain_size sdiv 2
      in map (\<lambda>i. let pos = center - half_size + i
                  in if pos \<ge> 0 \<and> pos < input_length
                     then fl_mul (input ! nat pos) (Num (hanning i grain_size)) else Num 0)
             [0..grain_size - 1])"

definition overlap_add_fl ::
  "c_float list \<Rightarrow> c_float list \<Rightarrow> int \<Rightarrow> int \<Rightarrow> int \<Rightarrow> c_float list" where
  "overlap_add_fl output grain center grain_size output_length =
     (let half_size = grain_size sdiv 2
      in fold (\<lambda>i out. let pos = center - half_size + i
                        in if pos \<ge> 0 \<and> pos < output_length
                           then out[nat pos := fl_add (out ! nat pos) (grain ! nat i)] else out)
              [0..grain_size - 1] output)"

definition place_grain_fl ::
  "AudioBuffer_fl \<Rightarrow> int list \<Rightarrow> int \<Rightarrow> int \<Rightarrow> c_float list \<Rightarrow> c_float list" where
  "place_grain_fl input input_marks grain_size out_mark output =
     (let input_length = int (length (data_fl input));
          closest_in_mark = closest_input_mark input_marks out_mark;
          in_mark = input_marks ! closest_in_mark
      in if in_mark < 0 \<or> in_mark \<ge> input_length then output
         else if out_mark < 0 \<or> out_mark \<ge> int (length output) then output
         else
           let local_grain_size =
                 (if int closest_in_mark < int (length input_marks) - 1
                  then (let local_period = input_marks ! (closest_in_mark + 1) - in_mark
                        in if local_period > 20 \<and> local_period < MAX_PERIOD
                           then (if local_period * 2 > grain_size then grain_size
                                 else local_period * 2)
                           else grain_size)
                  else grain_size);
               grain = extract_grain_fl (data_fl input) input_length in_mark local_grain_size
           in overlap_add_fl output grain out_mark local_grain_size (int (length output)))"







section \<open>Properties of the frequency mapper\<close>

lemma get_note_frequency_strict_mono:
  "m < n \<Longrightarrow> get_note_frequency m < get_note_frequency n"
  by (simp add: get_note_frequency_def)

lemma get_note_frequency_mono:
  "m \<le> n \<Longrightarrow> get_note_frequency m \<le> get_note_frequency n"
  by (simp add: get_note_frequency_def)

lemma get_note_frequency_A:
  "get_note_frequency (69 + 12 * k) = 440 * 2 powr (real_of_int k)"
  by (simp add: get_note_frequency_def)

lemma frequency_to_midi_note_A:
  "frequency_to_midi_note (440 * 2 powr k) = c_trunc (12 * k + 69 + 0.5)"
proof -
  have "ln (2 powr k) / ln 2 = k" by (simp add: ln_powr)
  then show ?thesis by (simp add: frequency_to_midi_note_def Let_def)
qed

lemma scan_down_zero:
  "\<forall>octave \<in> set octaves. \<not> (12 \<le> c + octave * 12 \<and> c + octave * 12 \<le> 108 \<and>
      get_note_frequency (c + octave * 12) < recorded) \<Longrightarrow> scan_down recorded c octaves = 0"
  by (induction octaves) (auto simp: Let_def)

lemma scan_up_zero:
  "\<forall>octave \<in> set octaves. \<not> (12 \<le> c + octave * 12 \<and> c + octave * 12 \<le> 108 \<and>
      get_note_frequency (c + octave * 12) > recorded) \<Longrightarrow> scan_up recorded c octaves = 0"
  by (induction octaves) (auto simp: Let_def)

lemma is_recurrence_octave:
  "12 \<le> c + octave * 12 \<Longrightarrow> c + octave * 12 \<le> 108 \<Longrightarrow> is_recurrence c (c + octave * 12)"
  by (simp add: is_recurrence_def)

lemma freq96_lt: "get_note_frequency 96 < 5000"
proof -
  have "get_note_frequency 96 \<le> get_note_frequency 105" by (rule get_note_frequency_mono) simp
  also have "get_note_frequency 105 = 440 * 2 powr 3" using get_note_frequency_A [of 3] by simp
  also have "\<dots> < 5000" by simp
  finally show ?thesis .
qed

lemma freq108_lt: "get_note_frequency 108 < 5000"
proof -
  have "(2 powr (13 / 4)) ^ 4 = (2::real) powr 13" by (simp add: powr_power)
  also have "\<dots> = 8192" by simp
  finally have p: "((2::real) powr (13 / 4)) ^ 4 = 8192" .
  have "(2::real) powr (13 / 4) < 125 / 11"
  proof (rule power_less_imp_less_base)
    show "(2 powr (13 / 4)) ^ 4 < (125 / 11 :: real) ^ 4" unfolding p by (simp add: power_divide)
  qed simp
  moreover have "get_note_frequency 108 = 440 * 2 powr (13 / 4)" by (simp add: get_note_frequency_def)
  ultimately show ?thesis by simp
qed

lemma class_of_C4: "frequency_to_midi_note (get_note_frequency 60) smod 12 = 0"
proof -
  have "get_note_frequency 60 = 440 * 2 powr (- (3 / 4))" by (simp add: get_note_frequency_def)
  then have "frequency_to_midi_note (get_note_frequency 60) = 60"
    by (simp add: frequency_to_midi_note_A c_trunc_def)
  then show ?thesis by (simp add: signed_modulo_int_def)
qed

lemma class_of_A_minus1: "frequency_to_midi_note (440 * 2 powr (- 5)) smod 12 = 9"
proof -
  have "frequency_to_midi_note (440 * 2 powr (- 5)) = 9"
    unfolding frequency_to_midi_note_A by (simp add: c_trunc_def)
  then show ?thesis by (simp add: signed_modulo_int_def)
qed

lemma scan_down_first_hit:
  assumes "sorted_wrt (>) octaves" and "k \<in> set octaves"
    and "12 \<le> c + k * 12" and "c + k * 12 \<le> 108"
    and "get_note_frequency (c + k * 12) < recorded"
  shows "\<exists>j \<in> set octaves. k \<le> j \<and> 12 \<le> c + j * 12 \<and> c + j * 12 \<le> 108
           \<and> get_note_frequency (c + j * 12) < recorded
           \<and> scan_down recorded c octaves = get_note_frequency (c + j * 12)"
  using assms
proof (induction octaves)
  case Nil
  then show ?case by simp
next
  case (Cons a rest)
  show ?case
  proof (cases "12 \<le> c + a * 12 \<and> c + a * 12 \<le> 108
                \<and> get_note_frequency (c + a * 12) < recorded")
    case True
    have "k \<le> a" using Cons.prems(1,2) by auto
    with True show ?thesis by (auto simp: Let_def)
  next
    case False
    with Cons.prems have "k \<in> set rest" by auto
    moreover have "sorted_wrt (>) rest" using Cons.prems(1) by simp
    ultimately obtain j where "j \<in> set rest" "k \<le> j" "12 \<le> c + j * 12" "c + j * 12 \<le> 108"
      "get_note_frequency (c + j * 12) < recorded"
      "scan_down recorded c rest = get_note_frequency (c + j * 12)"
      using Cons.IH Cons.prems(3,4,5) by blast
    moreover have "scan_down recorded c (a # rest) = scan_down recorded c rest"
      using False by (auto simp: Let_def)
    ultimately show ?thesis by auto
  qed
qed

lemma scan_up_first_hit:
  assumes "sorted_wrt (<) octaves" and "k \<in> set octaves"
    and "12 \<le> c + k * 12" and "c + k * 12 \<le> 108"
    and "get_note_frequency (c + k * 12) > recorded"
  shows "\<exists>j \<in> set octaves. j \<le> k \<and> 12 \<le> c + j * 12 \<and> c + j * 12 \<le> 108
           \<and> get_note_frequency (c + j * 12) > recorded
           \<and> scan_up recorded c octaves = get_note_frequency (c + j * 12)"
  using assms
proof (induction octaves)
  case Nil
  then show ?case by simp
next
  case (Cons a rest)
  show ?case
  proof (cases "12 \<le> c + a * 12 \<and> c + a * 12 \<le> 108
                \<and> get_note_frequency (c + a * 12) > recorded")
    case True
    have "a \<le> k" using Cons.prems(1,2) by auto
    with True show ?thesis by (auto simp: Let_def)
  next
    case False
    with Cons.prems have "k \<in> set rest" by auto
    moreover have "sorted_wrt (<) rest" using Cons.prems(1) by simp
    ultimately obtain j where "j \<in> set rest" "j \<le> k" "12 \<le> c + j * 12" "c + j * 12 \<le> 108"
      "get_note_frequency (c + j * 12) > recorded"
      "scan_up recorded c rest = get_note_frequency (c + j * 12)"
      using Cons.IH Cons.prems(3,4,5) by blast
    moreover have "scan_up recorded c (a # rest) = scan_up recorded c rest"
      using False by (auto simp: Let_def)
    ultimately show ?thesis by auto
  qed
qed

text \<open>
  What the mapper does among the notes it visits, \<open>class + 12 * octave\<close> for octaves 1
  to 8: if one of them is in range and on the required side, the result is such a
  note, and no visited note on the required side is nearer to the recorded frequency
  (higher when scanning down, lower when scanning up).
\<close>

lemma mapper_nearest_among_visited:
  assumes "k \<in> {1..8}" and "12 \<le> c + k * 12" and "c + k * 12 \<le> 108"
    and "on_required_side recorded reference (get_note_frequency (c + k * 12))"
  shows "\<exists>j \<in> {1..8}. 12 \<le> c + j * 12 \<and> c + j * 12 \<le> 108
           \<and> on_required_side recorded reference (get_note_frequency (c + j * 12))
           \<and> find_closest_target_frequency recorded c reference = get_note_frequency (c + j * 12)
           \<and> (if recorded > reference then k \<le> j else j \<le> k)"
proof (cases "recorded > reference")
  case True
  have s: "sorted_wrt (>) [8, 7, 6, 5, 4, 3, 2, 1 :: int]" by simp
  have m: "k \<in> set [8, 7, 6, 5, 4, 3, 2, 1]" using assms(1) by auto
  have "get_note_frequency (c + k * 12) < recorded"
    using assms(4) True by (simp add: on_required_side_def)
  from scan_down_first_hit [OF s m assms(2,3) this]
  obtain j where "j \<in> set [8, 7, 6, 5, 4, 3, 2, 1]" "k \<le> j" "12 \<le> c + j * 12"
    "c + j * 12 \<le> 108" "get_note_frequency (c + j * 12) < recorded"
    "scan_down recorded c [8, 7, 6, 5, 4, 3, 2, 1] = get_note_frequency (c + j * 12)"
    by blast
  moreover from this have "j \<in> {1..8}" by auto
  ultimately show ?thesis
    using True by (auto simp: on_required_side_def find_closest_target_frequency_def)
next
  case False
  have s: "sorted_wrt (<) [1, 2, 3, 4, 5, 6, 7, 8 :: int]" by simp
  have m: "k \<in> set [1, 2, 3, 4, 5, 6, 7, 8]" using assms(1) by auto
  have "get_note_frequency (c + k * 12) > recorded"
    using assms(4) False by (simp add: on_required_side_def)
  from scan_up_first_hit [OF s m assms(2,3) this]
  obtain j where "j \<in> set [1, 2, 3, 4, 5, 6, 7, 8]" "j \<le> k" "12 \<le> c + j * 12"
    "c + j * 12 \<le> 108" "get_note_frequency (c + j * 12) > recorded"
    "scan_up recorded c [1, 2, 3, 4, 5, 6, 7, 8] = get_note_frequency (c + j * 12)"
    by blast
  moreover from this have "j \<in> {1..8}" by auto
  ultimately show ?thesis
    using False by (auto simp: on_required_side_def find_closest_target_frequency_def)
qed

text \<open>
  Claim C7. With the recording above the reference, the mapper is to return the
  highest recurrence of the reference's pitch class, among MIDI notes 12 to 108,
  that lies strictly below the recorded frequency. The loops visit the notes
  \<open>class + 12 * octave\<close> for octaves 1 to 8 only, so for pitch class 0 the note 108,
  which the range check of the loop body admits, is never visited. With a reference
  at middle C (MIDI 60, pitch class 0) and a recording at 5000 Hz the mapper returns
  the frequency of MIDI 96, although MIDI 108 is a recurrence of the class, is
  higher, and is still below 5000 Hz.
\<close>

theorem mapper_skips_midi_108:
  "frequency_to_midi_note (get_note_frequency 60) smod 12 = 0
   \<and> get_note_frequency 60 < 5000
   \<and> find_closest_target_frequency 5000 0 (get_note_frequency 60) = get_note_frequency 96
   \<and> main_target_pitch_ratio 5000 (get_note_frequency 60) = get_note_frequency 96 / 5000
   \<and> is_recurrence 0 108
   \<and> get_note_frequency 96 < get_note_frequency 108
   \<and> get_note_frequency 108 < 5000"
proof -
  have lt: "get_note_frequency 60 < 5000"
    using get_note_frequency_strict_mono [of 60 96] freq96_lt by simp
  have t: "find_closest_target_frequency 5000 0 (get_note_frequency 60) = get_note_frequency 96"
    using lt freq96_lt by (simp add: find_closest_target_frequency_def)
  have pos: "0 < get_note_frequency 96" by (simp add: get_note_frequency_def)
  have r: "main_target_pitch_ratio 5000 (get_note_frequency 60) = get_note_frequency 96 / 5000"
    using pos by (simp add: main_target_pitch_ratio_def class_of_C4 t)
  show ?thesis
    using lt t r freq108_lt get_note_frequency_strict_mono [of 96 108] class_of_C4
    by (simp add: is_recurrence_def)
qed

lemma freq96_lt_3000: "get_note_frequency 96 < 3000"
proof -
  have "(2 powr (9 / 4)) ^ 4 = (2::real) powr 9" by (simp add: powr_power)
  also have "\<dots> = 512" by simp
  finally have p: "((2::real) powr (9 / 4)) ^ 4 = 512" .
  have "(2::real) powr (9 / 4) < 75 / 11"
  proof (rule power_less_imp_less_base)
    show "(2 powr (9 / 4)) ^ 4 < (75 / 11 :: real) ^ 4" unfolding p by (simp add: power_divide)
  qed simp
  moreover have "get_note_frequency 96 = 440 * 2 powr (9 / 4)" by (simp add: get_note_frequency_def)
  ultimately show ?thesis by simp
qed

lemma freq108_gt_3000: "3000 < get_note_frequency 108"
proof -
  have "(2 powr (13 / 4)) ^ 4 = (2::real) powr 13" by (simp add: powr_power)
  also have "\<dots> = 8192" by simp
  finally have p: "((2::real) powr (13 / 4)) ^ 4 = 8192" .
  have "75 / 11 < (2::real) powr (13 / 4)"
  proof (rule power_less_imp_less_base)
    show "(75 / 11 :: real) ^ 4 < (2 powr (13 / 4)) ^ 4" unfolding p by (simp add: power_divide)
  qed simp
  moreover have "get_note_frequency 108 = 440 * 2 powr (13 / 4)" by (simp add: get_note_frequency_def)
  ultimately show ?thesis by simp
qed

lemma class_of_C8: "frequency_to_midi_note (get_note_frequency 108) smod 12 = 0"
proof -
  have "get_note_frequency 108 = 440 * 2 powr (13 / 4)" by (simp add: get_note_frequency_def)
  then have "frequency_to_midi_note (get_note_frequency 108) = 108"
    by (simp add: frequency_to_midi_note_A c_trunc_def)
  then show ?thesis by (simp add: signed_modulo_int_def)
qed

text \<open>
  The upward scan misses the same note: with a reference at MIDI 108 and a recording
  at 3000 Hz nothing is found and the ratio falls back to 1.
\<close>

lemma mapper_upward_skips_midi_108:
  "find_closest_target_frequency 3000 0 (get_note_frequency 108) = 0
   \<and> main_target_pitch_ratio 3000 (get_note_frequency 108) = 1
   \<and> is_recurrence 0 108 \<and> 3000 < get_note_frequency 108"
proof -
  have le: "get_note_frequency k \<le> 3000" if "k \<le> 96" for k
    using get_note_frequency_mono [OF that] freq96_lt_3000 by linarith
  have "scan_up 3000 0 [1, 2, 3, 4, 5, 6, 7, 8] = 0"
  proof (rule scan_up_zero, rule ballI)
    fix octave :: int assume "octave \<in> set [1, 2, 3, 4, 5, 6, 7, 8]"
    then have "0 + octave * 12 \<le> 96" by auto
    from le [OF this]
    show "\<not> (12 \<le> 0 + octave * 12 \<and> 0 + octave * 12 \<le> 108 \<and>
             get_note_frequency (0 + octave * 12) > 3000)" by simp
  qed
  then have t: "find_closest_target_frequency 3000 0 (get_note_frequency 108) = 0"
    using freq108_gt_3000 by (simp add: find_closest_target_frequency_def)
  then have "main_target_pitch_ratio 3000 (get_note_frequency 108) = 1"
    by (simp add: main_target_pitch_ratio_def class_of_C8)
  with t freq108_gt_3000 show ?thesis by (simp add: is_recurrence_def)
qed

text \<open>
  Claim C8. When no recurrence of the reference's pitch class in MIDI 12 to 108 lies
  on the required side of the recorded frequency, the search returns its initial 0,
  and \<open>main\<close> then sets the shift ratio to 1 instead of dividing the zero target by
  the recorded pitch.
\<close>

theorem no_recurrence_ratio_is_one:
  assumes "\<forall>m. is_recurrence (frequency_to_midi_note ref_pitch smod 12) m \<longrightarrow>
             \<not> on_required_side recorded_pitch ref_pitch (get_note_frequency m)"
  shows "find_closest_target_frequency recorded_pitch
           (frequency_to_midi_note ref_pitch smod 12) ref_pitch = 0
         \<and> main_target_pitch_ratio recorded_pitch ref_pitch = 1"
proof -
  let ?c = "frequency_to_midi_note ref_pitch smod 12"
  have t: "find_closest_target_frequency recorded_pitch ?c ref_pitch = 0"
  proof (cases "recorded_pitch > ref_pitch")
    case True
    have "scan_down recorded_pitch ?c [8, 7, 6, 5, 4, 3, 2, 1] = 0"
    proof (rule scan_down_zero, rule ballI)
      fix octave assume "octave \<in> set [8, 7, 6, 5, 4, 3, 2, 1::int]"
      show "\<not> (12 \<le> ?c + octave * 12 \<and> ?c + octave * 12 \<le> 108 \<and>
              get_note_frequency (?c + octave * 12) < recorded_pitch)"
        using assms True is_recurrence_octave [of ?c octave]
        by (auto simp: on_required_side_def)
    qed
    with True show ?thesis by (simp add: find_closest_target_frequency_def)
  next
    case False
    have "scan_up recorded_pitch ?c [1, 2, 3, 4, 5, 6, 7, 8] = 0"
    proof (rule scan_up_zero, rule ballI)
      fix octave assume "octave \<in> set [1, 2, 3, 4, 5, 6, 7, 8::int]"
      show "\<not> (12 \<le> ?c + octave * 12 \<and> ?c + octave * 12 \<le> 108 \<and>
              get_note_frequency (?c + octave * 12) > recorded_pitch)"
        using assms False is_recurrence_octave [of ?c octave]
        by (auto simp: on_required_side_def)
    qed
    with False show ?thesis by (simp add: find_closest_target_frequency_def)
  qed
  then show ?thesis by (simp add: main_target_pitch_ratio_def Let_def)
qed

text \<open>
  An instance: a reference at 13.75 Hz (MIDI 9, pitch class 9) and a recording at
  20 Hz. The lowest recurrence of the class is MIDI 21 at 27.5 Hz, so none lies below
  the recording.
\<close>

theorem no_recurrence_ratio_is_one_witness:
  "find_closest_target_frequency 20 (frequency_to_midi_note (440 * 2 powr (- 5)) smod 12)
     (440 * 2 powr (- 5)) = 0
   \<and> main_target_pitch_ratio 20 (440 * 2 powr (- 5)) = 1"
proof -
  have ref: "440 * 2 powr (- 5) = (13.75::real)" by (simp add: powr_minus_divide)
  have "\<forall>m. is_recurrence (frequency_to_midi_note (440 * 2 powr (- 5)) smod 12) m \<longrightarrow>
             \<not> on_required_side 20 (440 * 2 powr (- 5)) (get_note_frequency m)"
  proof (intro allI impI)
    fix m :: int
    assume "is_recurrence (frequency_to_midi_note (440 * 2 powr (- 5)) smod 12) m"
    then have r: "12 \<le> m" "(m - 9) mod 12 = 0"
      by (simp_all add: class_of_A_minus1 is_recurrence_def)
    then have "21 \<le> m" by presburger
    then have "get_note_frequency 21 \<le> get_note_frequency m" by (rule get_note_frequency_mono)
    moreover have "get_note_frequency 21 = 440 * 2 powr (- 4)"
      using get_note_frequency_A [of "- 4"] by simp
    moreover have "(2::real) powr (- 4) = 1 / 16" by (simp add: powr_minus_divide)
    ultimately have "20 < get_note_frequency m" by simp
    then show "\<not> on_required_side 20 (440 * 2 powr (- 5)) (get_note_frequency m)"
      unfolding ref by (simp add: on_required_side_def)
  qed
  from no_recurrence_ratio_is_one [OF this] show ?thesis .
qed

section \<open>Properties of ph wrapping\<close>













lemma ulp_pos: "0 < 2 powr (y::real)"
  by simp

lemma pow_as_powr: "(2::real) ^ p = 2 powr real_of_int (int p)"
  by (simp add: powr_realpow)







































text \<open>
  Bounds on \<open>pi\<close> from Machin's formula and the alternating series of the arc tangent:
  \<open>M_PI\<close> is below \<open>pi\<close>, and the float above \<open>M_PI\<close> is above \<open>pi\<close>.
\<close>

lemma arctan_series_bounds:
  fixes x :: real
  assumes "0 \<le> x" and "x \<le> 1"
  shows "(\<Sum>i<2 * n. (- 1) ^ i * (1 / real (i * 2 + 1) * x ^ (i * 2 + 1))) \<le> arctan x"
    and "arctan x \<le> (\<Sum>i<2 * n + 1. (- 1) ^ i * (1 / real (i * 2 + 1) * x ^ (i * 2 + 1)))"
proof -
  let ?a = "\<lambda>n. 1 / real (n * 2 + 1) * x ^ (n * 2 + 1)"
  have ax: "\<bar>x\<bar> \<le> 1" using assms by simp
  have z: "?a \<longlonglongrightarrow> 0" by (rule zeroseq_arctan_series [OF ax])
  have pos: "0 \<le> ?a n" for n using assms by simp
  have mono: "?a (Suc n) \<le> ?a n" for n
  proof -
    have "x ^ (Suc n * 2 + 1) \<le> x ^ (n * 2 + 1)"
      using assms by (intro power_decreasing) simp_all
    moreover have "1 / real (Suc n * 2 + 1) \<le> 1 / real (n * 2 + 1)"
      by (simp add: field_simps)
    ultimately show ?thesis
      using assms by (intro mult_mono) simp_all
  qed
  have s: "arctan x = (\<Sum>k. (- 1) ^ k * ?a k)" by (rule arctan_series [OF ax])
  show "(\<Sum>i<2 * n. (- 1) ^ i * ?a i) \<le> arctan x"
    unfolding s by (rule summable_Leibniz'(2) [of ?a, OF z pos mono])
  show "arctan x \<le> (\<Sum>i<2 * n + 1. (- 1) ^ i * ?a i)"
    unfolding s by (rule summable_Leibniz'(4) [of ?a, OF z pos mono])
qed

lemma sum_as_list: "sum f {..<n} = sum_list (map f [0..<n])"
  by (simp add: interv_sum_list_conv_sum_set_nat lessThan_atLeast0)


lemma pi_upper: "pi < 13176795 / 2 ^ 22"
proof -
  define U :: real
    where "U = (\<Sum>i\<leftarrow>[0..<7]. (- 1) ^ i * (1 / real (i * 2 + 1) * (1 / 5) ^ (i * 2 + 1)))"
  define L :: real
    where "L = (\<Sum>i\<leftarrow>[0..<2]. (- 1) ^ i * (1 / real (i * 2 + 1) * (1 / 239) ^ (i * 2 + 1)))"
  have u: "arctan (1 / 5) \<le> U"
    unfolding U_def using arctan_series_bounds(2) [of "1 / 5" 3]
    by (simp only: sum_as_list) simp
  have l: "L \<le> arctan (1 / 239)"
    unfolding L_def using arctan_series_bounds(1) [of "1 / 239" 1]
    by (simp only: sum_as_list) simp
  have "pi = 16 * arctan (1 / 5) - 4 * arctan (1 / 239)" using machin by simp
  also have "\<dots> \<le> 16 * U - 4 * L" using l u by simp
  also have "\<dots> < 13176795 / 2 ^ 22"
  proof -
    have e: "[0..<7] = [0, 1, 2, 3, 4, 5, 6 :: nat]" "[0..<2] = [0, 1 :: nat]"
      by (simp_all add: upt_rec)
    show ?thesis unfolding L_def U_def e by (simp add: power_divide)
  qed
  finally show ?thesis .
qed







section \<open>Properties of the pitch-shifting engines\<close>

subsection \<open>Final normalisation\<close>


lemma fold_max_abs_ge_acc:
  "m \<le> fold (\<lambda>x max_val. if \<bar>x\<bar> > max_val then \<bar>x\<bar> else max_val) xs (m::real)"
proof (induction xs arbitrary: m)
  case Nil
  then show ?case by simp
next
  case (Cons x xs)
  have "m \<le> (if \<bar>x\<bar> > m then \<bar>x\<bar> else m)" by simp
  also have "\<dots> \<le> fold (\<lambda>x max_val. if \<bar>x\<bar> > max_val then \<bar>x\<bar> else max_val) xs
                      (if \<bar>x\<bar> > m then \<bar>x\<bar> else m)"
    by (rule Cons.IH)
  finally show ?case by simp
qed



lemma max_abs_nonneg: "0 \<le> max_abs xs"
  unfolding max_abs_def by (rule fold_max_abs_ge_acc)




subsection \<open>Pitch marks\<close>

lemma mark_loop_step:
  "position < int (length (data audio)) \<Longrightarrow>
   mark_loop audio position marks =
     (let period = detect_pitch_period (data audio) position (int (length (data audio)))
                       (sample_rate audio);
          position' = (if period > 0 \<and> period < real_of_int MAX_PERIOD
                       then position + c_trunc period else position + 200);
          marks' = (if position' < int (length (data audio)) then marks @ [position'] else marks)
      in mark_loop audio position' marks')"
  by (subst mark_loop.simps) (simp only: if_True)

lemma mark_loop_stop:
  "\<not> position < int (length (data audio)) \<Longrightarrow> mark_loop audio position marks = marks"
  by (subst mark_loop.simps) (simp only: if_False)

lemma mark_loop_grows: "length marks \<le> length (mark_loop audio position marks)"
proof (induction audio position marks rule: mark_loop.induct)
  case (1 audio position marks)
  show ?case
  proof (cases "position < int (length (data audio))")
    case False
    then show ?thesis by (simp add: mark_loop_stop)
  next
    case True
    define period where "period = detect_pitch_period (data audio) position
                                    (int (length (data audio))) (sample_rate audio)"
    define position' where "position' = (if period > 0 \<and> period < real_of_int MAX_PERIOD
                         then position + c_trunc period else position + 200)"
    define marks' where "marks' = (if position' < int (length (data audio))
                                   then marks @ [position'] else marks)"
    have step: "mark_loop audio position marks = mark_loop audio position' marks'"
      unfolding marks'_def position'_def period_def
      by (subst mark_loop_step [OF True]) (simp only: Let_def)
    have "length marks' \<le> length (mark_loop audio position' marks')"
      using 1 [OF True period_def position'_def marks'_def] .
    moreover have "length marks \<le> length marks'" by (simp add: marks'_def)
    ultimately show ?thesis unfolding step by linarith
  qed
qed

lemma detect_pitch_period_short:
  "start + 2048 \<ge> len \<Longrightarrow> detect_pitch_period buffer start len rate = 0"
  by (simp add: detect_pitch_period_def MAX_PERIOD_def)

lemma marks_of_long_buffer:
  assumes "200 < length (data audio)"
  shows "2 \<le> length (detect_pitch_marks audio)"
proof -
  define period where "period = detect_pitch_period (data audio) 0
                                    (int (length (data audio))) (sample_rate audio)"
  define position' where "position' = (if period > 0 \<and> period < real_of_int MAX_PERIOD
                         then 0 + c_trunc period else 0 + 200)"
  define marks' where "marks' = (if position' < int (length (data audio))
                                   then [0] @ [position'] else [0])"
  have pos: "0 < int (length (data audio))" using assms by linarith
  have step: "mark_loop audio 0 [0] = mark_loop audio position' marks'"
    unfolding marks'_def position'_def period_def
    by (subst mark_loop_step [OF pos]) (simp only: Let_def)
  have "position' < int (length (data audio))"
  proof (cases "period > 0 \<and> period < real_of_int MAX_PERIOD")
    case False
    then have "position' = 200" unfolding position'_def by auto
    then show ?thesis using assms by linarith
  next
    case True
    then have "period \<noteq> 0" by simp
    then have long: "0 + 2048 < int (length (data audio))"
      using detect_pitch_period_short [of "int (length (data audio))" 0 "data audio" "sample_rate audio"]
      unfolding period_def by linarith
    have "c_trunc period < 2048" using True by (auto simp: c_trunc_def MAX_PERIOD_def; linarith)
    moreover have "position' = c_trunc period" unfolding position'_def using True by simp
    ultimately show ?thesis using long by linarith
  qed
  then have "length marks' = 2" by (simp add: marks'_def)
  with mark_loop_grows [of marks' audio position'] show ?thesis
    unfolding detect_pitch_marks_def step by simp
qed

lemma marks_of_short_buffer:
  assumes "length (data audio) \<le> 200"
  shows "detect_pitch_marks audio = [0]"
proof (cases "length (data audio) = 0")
  case True
  then show ?thesis unfolding detect_pitch_marks_def by (simp add: mark_loop_stop)
next
  case False
  then have pos: "0 < int (length (data audio))" by simp
  have p: "detect_pitch_period (data audio) 0 (int (length (data audio))) (sample_rate audio) = 0"
    using assms by (intro detect_pitch_period_short) simp
  have "mark_loop audio 0 [0] = mark_loop audio 200 [0]"
    using assms by (subst mark_loop_step [OF pos]) (simp add: Let_def p)
  also have "\<dots> = [0]" using assms by (simp add: mark_loop_stop)
  finally show ?thesis by (simp add: detect_pitch_marks_def)
qed

lemma psola_some:
  "2 \<le> length (detect_pitch_marks input) \<Longrightarrow>
   psola_pitch_shift input pitch_ratio =
     Some \<lparr>data = final_normalization
                    (psola_grains input (clamp_pitch_ratio pitch_ratio) (detect_pitch_marks input)),
           sample_rate = sample_rate input\<rparr>"
  by (simp add: psola_pitch_shift_def psola_clamped_def Let_def)

lemma psola_some_data:
  "psola_pitch_shift input pitch_ratio = Some out \<Longrightarrow>
   out = \<lparr>data = final_normalization
                    (psola_grains input (clamp_pitch_ratio pitch_ratio) (detect_pitch_marks input)),
           sample_rate = sample_rate input\<rparr>"
  by (auto simp: psola_pitch_shift_def psola_clamped_def Let_def split: if_splits)

lemma length_overlap_add [simp]:
  "length (overlap_add out grain center grain_size output_length) = length out"
proof -
  have "length (fold (\<lambda>i out. let pos = center - h + i
                        in if pos \<ge> 0 \<and> pos < output_length
                           then out[nat pos := out ! nat pos + grain ! nat i] else out) is out)
        = length out" for h "is" out
    by (induction "is" arbitrary: out) (simp_all add: Let_def)
  then show ?thesis by (simp add: overlap_add_def Let_def)
qed

lemma length_place_grain [simp]:
  "length (place_grain input input_marks grain_size out_mark out) = length out"
  by (simp add: place_grain_def Let_def)

lemma length_fold_place_grain:
  "length (fold (place_grain input input_marks grain_size) output_marks out) = length out"
  by (induction output_marks arbitrary: out) simp_all

lemma length_psola_grains [simp]:
  "length (psola_grains input pitch_ratio input_marks) = length (data input)"
  by (simp add: psola_grains_def Let_def length_fold_place_grain)

lemma length_final_normalization [simp]: "length (final_normalization xs) = length xs"
  by (simp add: final_normalization_def Let_def)

lemma length_pv_resample [simp]: "length (pv_resample n temp p) = nat n"
  by (simp add: pv_resample_def Let_def)

lemma length_pv_clamped [simp]:
  "length (data (pv_clamped uninit input pitch_ratio)) = length (data input)"
  by (simp add: pv_clamped_def pv_resampled_def Let_def)

subsection \<open>The two engines\<close>

lemma clamp_pitch_ratio_range: "0.5 \<le> clamp_pitch_ratio r \<and> clamp_pitch_ratio r \<le> 2"
  by (simp add: clamp_pitch_ratio_def Let_def)

lemma clamp_pitch_ratio_idem: "clamp_pitch_ratio (clamp_pitch_ratio r) = clamp_pitch_ratio r"
  by (simp add: clamp_pitch_ratio_def Let_def)

text \<open>
  Claim C1. The buffer either engine returns has as many samples as the input and the
  input's sample rate. The phase vocoder always returns a buffer; PSOLA returns one
  or none. This holds for every ratio, so in particular for the ratios from 0.5 to 2.
\<close>

theorem pitch_shift_preserves_duration:
  "length (data (phase_vocoder_pitch_shift uninit input pitch_ratio)) = length (data input)
   \<and> sample_rate (phase_vocoder_pitch_shift uninit input pitch_ratio) = sample_rate input
   \<and> (\<forall>out. psola_pitch_shift input pitch_ratio = Some out \<longrightarrow>
         length (data out) = length (data input) \<and> sample_rate out = sample_rate input)"
proof -
  have "length (data out) = length (data input) \<and> sample_rate out = sample_rate input"
    if "psola_pitch_shift input pitch_ratio = Some out" for out
    using psola_some_data [OF that] by simp
  then show ?thesis
    by (simp add: phase_vocoder_pitch_shift_def) (simp add: pv_clamped_def)
qed

text \<open>
  An instance where PSOLA does return a buffer: 201 samples give the two pitch marks
  0 and 200.
\<close>

theorem pitch_shift_preserves_duration_witness:
  "psola_pitch_shift \<lparr>data = replicate 201 0.5, sample_rate = 48000\<rparr> 1.5 \<noteq> None
   \<and> length (data (the (psola_pitch_shift \<lparr>data = replicate 201 0.5, sample_rate = 48000\<rparr> 1.5))) = 201
   \<and> sample_rate (the (psola_pitch_shift \<lparr>data = replicate 201 0.5, sample_rate = 48000\<rparr> 1.5)) = 48000
   \<and> length (data (phase_vocoder_pitch_shift (\<lambda>i. \<lparr>real_c = 0, imag_c = 0\<rparr>)
                     \<lparr>data = replicate 201 0.5, sample_rate = 48000\<rparr> 1.5)) = 201"
proof -
  let ?b = "\<lparr>data = replicate 201 0.5, sample_rate = 48000\<rparr>"
  have "2 \<le> length (detect_pitch_marks ?b)" by (rule marks_of_long_buffer) simp
  from psola_some [OF this, of "1.5"]
  obtain out where out: "psola_pitch_shift ?b 1.5 = Some out" by blast
  from pitch_shift_preserves_duration [of "\<lambda>i. \<lparr>real_c = 0, imag_c = 0\<rparr>" ?b "1.5"] out
  show ?thesis by simp
qed

text \<open>
  Claim C6. With fewer than two pitch marks \<open>psola_pitch_shift\<close> returns no buffer.
  The function reads its input and never assigns through it, so the embedding has no
  changed input to return: the argument is the same value after the call.
\<close>

theorem too_few_marks_no_result:
  "length (detect_pitch_marks input) < 2 \<Longrightarrow> psola_pitch_shift input pitch_ratio = None"
  by (simp add: psola_pitch_shift_def psola_clamped_def Let_def)

text \<open>An instance: a buffer of two samples has the single mark 0.\<close>

theorem too_few_marks_no_result_witness:
  "length (detect_pitch_marks \<lparr>data = [0.1, 0.2], sample_rate = 48000\<rparr>) < 2
   \<and> psola_pitch_shift \<lparr>data = [0.1, 0.2], sample_rate = 48000\<rparr> 1.5 = None"
proof -
  have m: "detect_pitch_marks \<lparr>data = [0.1, 0.2], sample_rate = 48000\<rparr> = [0]"
    by (rule marks_of_short_buffer) simp
  then have h: "length (detect_pitch_marks \<lparr>data = [0.1, 0.2], sample_rate = 48000\<rparr>) < 2" by simp
  from too_few_marks_no_result [OF h, of "1.5"] h show ?thesis by simp
qed

lemma frame_loop_none:
  "num_frames \<le> frame \<Longrightarrow>
   frame_loop input_data window analysis_hop synthesis_hop stretched_length num_frames frame st = st"
  by (subst frame_loop.simps) simp

lemma pv_num_frames_short: "n < 2048 \<Longrightarrow> pv_num_frames n \<le> 0"
  by (simp add: pv_num_frames_def FFT_SIZE_def HOP_SIZE_def signed_divide_int_def sgn_if
        zdiv_mono1)

lemma pv_resample_empty: "pv_resample n temp 0 = replicate (nat n) 0"
proof (rule nth_equalityI)
  show "length (pv_resample n temp 0) = length (replicate (nat n) (0::real))" 
    by (simp add: pv_resample_def)
next
  fix i assume "i < length (pv_resample n temp 0)"
  then have "i < nat n" by (simp add: pv_resample_def)
  then show "pv_resample n temp 0 ! i = replicate (nat n) 0 ! i"
    by (simp add: pv_resample_def c_trunc_def)
qed

lemma max_abs_zeros: "max_abs (replicate n 0) = 0"
proof -
  have "fold (\<lambda>x max_val. if \<bar>x\<bar> > max_val then \<bar>x\<bar> else max_val) (replicate n (0::real)) 0 = 0"
    by (induction n) simp_all
  then show ?thesis by (simp add: max_abs_def)
qed

text \<open>
  Claim C10. An input shorter than the FFT size has a frame count of zero or less, so
  the frame loop leaves \<open>output_pos\<close> at 0 and the phase vocoder returns a buffer of
  the input's length that is all zeros. The function has no \<open>return NULL\<close>: its
  result is always a buffer.
\<close>

theorem short_input_gives_silence:
  assumes "length (data input) < 2048"
  shows "pv_num_frames (int (length (data input))) \<le> 0
         \<and> output_pos (pv_time_stretch uninit input (clamp_pitch_ratio pitch_ratio)) = 0
         \<and> phase_vocoder_pitch_shift uninit input pitch_ratio
             = \<lparr>data = replicate (length (data input)) 0, sample_rate = sample_rate input\<rparr>"
proof -
  have nf: "pv_num_frames (int (length (data input))) \<le> 0"
    using assms by (intro pv_num_frames_short) simp
  have op: "output_pos (pv_time_stretch uninit input r) = 0" for r
    by (simp add: pv_time_stretch_def Let_def frame_loop_none [OF nf])
  have "pv_resampled uninit input r = replicate (length (data input)) 0" for r
    by (simp add: pv_resampled_def Let_def op pv_resample_empty)
  then have "phase_vocoder_pitch_shift uninit input pitch_ratio
             = \<lparr>data = replicate (length (data input)) 0, sample_rate = sample_rate input\<rparr>"
    by (simp add: phase_vocoder_pitch_shift_def pv_clamped_def final_normalization_def
          max_abs_zeros)
  with nf op show ?thesis by simp
qed

text \<open>An instance: three samples in, three zeros out.\<close>

theorem short_input_gives_silence_witness:
  "length (data \<lparr>data = [0.5, - 0.25, 1], sample_rate = 48000\<rparr>) < 2048
   \<and> phase_vocoder_pitch_shift (\<lambda>i. \<lparr>real_c = 1, imag_c = 1\<rparr>)
        \<lparr>data = [0.5, - 0.25, 1], sample_rate = 48000\<rparr> 1.5
      = \<lparr>data = [0, 0, 0], sample_rate = 48000\<rparr>"
proof -
  have h: "length (data \<lparr>data = [0.5, - 0.25, 1 :: real], sample_rate = 48000\<rparr>) < 2048" by simp
  from short_input_gives_silence [OF h, of "\<lambda>i. \<lparr>real_c = 1, imag_c = 1\<rparr>" "1.5"] h
  show ?thesis by (simp add: numeral_3_eq_3)
qed

subsection \<open>The clamp of the ratio\<close>

lemma output_pos_process_frame:
  "output_pos (process_frame input_data window analysis_hop synthesis_hop stretched_length
                 input_pos st) = output_pos st + synthesis_hop"
  by (simp add: process_frame_def Let_def)

lemma frame_loop_step:
  "frame < num_frames \<Longrightarrow> frame * analysis_hop + FFT_SIZE \<le> int (length input_data) \<Longrightarrow>
   output_pos st + FFT_SIZE \<le> stretched_length \<Longrightarrow>
   frame_loop input_data window analysis_hop synthesis_hop stretched_length num_frames frame st
     = frame_loop input_data window analysis_hop synthesis_hop stretched_length num_frames
         (frame + 1)
         (process_frame input_data window analysis_hop synthesis_hop stretched_length
            (frame * analysis_hop) st)"
  by (subst frame_loop.simps) (simp add: Let_def)

lemma frame_loop_break:
  "frame < num_frames \<Longrightarrow>
   frame * analysis_hop + FFT_SIZE > int (length input_data)
     \<or> output_pos st + FFT_SIZE > stretched_length \<Longrightarrow>
   frame_loop input_data window analysis_hop synthesis_hop stretched_length num_frames frame st
     = st"
  by (subst frame_loop.simps) (auto simp add: Let_def)

lemma output_pos_pv_time_stretch:
  "output_pos (pv_time_stretch uninit input r) =
     output_pos
       (frame_loop (data input) (map (\<lambda>i. hanning i FFT_SIZE) [0..FFT_SIZE - 1]) HOP_SIZE
          (if c_trunc (real_of_int HOP_SIZE * r) < 1 then 1 else c_trunc (real_of_int HOP_SIZE * r))
          (c_trunc (real (length (data input)) * r * 1.2))
          (pv_num_frames (int (length (data input)))) 0
          \<lparr>last_phase = replicate (nat FFT_SIZE) 0,
            sum_phase = replicate (nat FFT_SIZE) 0,
            fft_out = map uninit [0..<nat FFT_SIZE],
            temp_output = replicate (nat (c_trunc (real (length (data input)) * r * 1.2))) 0,
            output_pos = 0\<rparr>)"
  by (simp add: pv_time_stretch_def Let_def)

lemma pv_one_frame_2:
  "output_pos (pv_time_stretch uninit \<lparr>data = replicate 2560 0.5, sample_rate = 48000\<rparr> 2) = 1024"
  apply (subst output_pos_pv_time_stretch)
  apply (simp add: pv_num_frames_def FFT_SIZE_def HOP_SIZE_def c_trunc_def)
  apply (subst frame_loop_step)
     apply (simp_all add: FFT_SIZE_def)
  apply (subst frame_loop_none)
   apply (simp_all add: output_pos_process_frame)
  done

lemma pv_one_frame_3:
  "output_pos (pv_time_stretch uninit \<lparr>data = replicate 2560 0.5, sample_rate = 48000\<rparr> 3) = 1536"
  apply (subst output_pos_pv_time_stretch)
  apply (simp add: pv_num_frames_def FFT_SIZE_def HOP_SIZE_def c_trunc_def)
  apply (subst frame_loop_step)
     apply (simp_all add: FFT_SIZE_def)
  apply (subst frame_loop_none)
   apply (simp_all add: output_pos_process_frame)
  done

lemma oml_2: "output_mark_loop 201 [200] 2 0 0 [0] = [0, 100, 200]"
  apply (subst output_mark_loop.simps, simp add: c_trunc_def Let_def)
  apply (subst output_mark_loop.simps, simp add: c_trunc_def Let_def)
  apply (subst output_mark_loop.simps, simp add: c_trunc_def Let_def)
  apply (subst output_mark_loop.simps, simp add: c_trunc_def Let_def)
  done

lemma oml_3: "output_mark_loop 201 [200] 3 0 0 [0] = [0, 66, 132, 198]"
  apply (subst output_mark_loop.simps, simp add: c_trunc_def Let_def)
  apply (subst output_mark_loop.simps, simp add: c_trunc_def Let_def)
  apply (subst output_mark_loop.simps, simp add: c_trunc_def Let_def)
  apply (subst output_mark_loop.simps, simp add: c_trunc_def Let_def)
  apply (subst output_mark_loop.simps, simp add: c_trunc_def Let_def)
  done

lemma marks_of_201:
  assumes "length (data audio) = 201"
  shows "detect_pitch_marks audio = [0, 200]"
proof -
  have p: "detect_pitch_period (data audio) k 201 (sample_rate audio) = 0" if "0 \<le> k" for k
    using that by (intro detect_pitch_period_short) simp
  have "mark_loop audio 0 [0] = mark_loop audio 200 [0, 200]"
    using assms by (subst mark_loop_step) (simp_all add: Let_def p)
  also have "\<dots> = mark_loop audio 400 [0, 200]"
    using assms by (subst mark_loop_step) (simp_all add: Let_def p)
  also have "\<dots> = [0, 200]"
    using assms by (simp add: mark_loop_stop)
  finally show ?thesis by (simp add: detect_pitch_marks_def)
qed

lemma pv_two_frames_half:
  "output_pos (pv_time_stretch uninit \<lparr>data = replicate 4096 0.5, sample_rate = 48000\<rparr> 0.5) = 512"
  apply (subst output_pos_pv_time_stretch)
  apply (simp add: pv_num_frames_def FFT_SIZE_def HOP_SIZE_def c_trunc_def)
  apply (subst frame_loop_step)
     apply (simp_all add: FFT_SIZE_def)
  apply (subst frame_loop_step)
     apply (simp_all add: FFT_SIZE_def output_pos_process_frame)
  apply (subst frame_loop_break)
    apply (simp_all add: FFT_SIZE_def output_pos_process_frame)
  done

lemma pv_no_frame_quarter:
  "output_pos (pv_time_stretch uninit \<lparr>data = replicate 4096 0.5, sample_rate = 48000\<rparr> 0.25) = 0"
  apply (subst output_pos_pv_time_stretch)
  apply (simp add: pv_num_frames_def FFT_SIZE_def HOP_SIZE_def c_trunc_def)
  apply (subst frame_loop_break)
    apply (simp_all add: FFT_SIZE_def)
  done

lemma clamp_statements_num: "clamp_statements (Num r) = Num (clamp_pitch_ratio r)"
  by (simp add: clamp_statements_def clamp_pitch_ratio_def Let_def fl_greater_def)

text \<open>
  Claim C4. The two clamping statements are the first statements of either engine and
  overwrite the parameter. For a ratio that is a number or an infinity they leave a
  number between 0.5 and 2: a ratio below 0.5 makes either engine do exactly what it
  does after the clamp with 0.5, a ratio above 2 what it does with 2, and a ratio in
  between is kept. Every stage that reads the ratio reads the clamped one: the time
  stretch of the phase vocoder (stretched length and synthesis hop) and the output
  marks of PSOLA.
\<close>

theorem ratio_is_clamped_first:
  "clamp_statements (Num pitch_ratio) = Num (clamp_pitch_ratio pitch_ratio)
   \<and> clamp_statements PosInf = Num 2 \<and> clamp_statements NegInf = Num 0.5
   \<and> 0.5 \<le> clamp_pitch_ratio pitch_ratio \<and> clamp_pitch_ratio pitch_ratio \<le> 2
   \<and> (pitch_ratio < 0.5 \<longrightarrow>
        phase_vocoder_pitch_shift uninit input pitch_ratio = pv_clamped uninit input 0.5
        \<and> psola_pitch_shift input pitch_ratio = psola_clamped input 0.5)
   \<and> (pitch_ratio > 2 \<longrightarrow>
        phase_vocoder_pitch_shift uninit input pitch_ratio = pv_clamped uninit input 2
        \<and> psola_pitch_shift input pitch_ratio = psola_clamped input 2)
   \<and> (0.5 \<le> pitch_ratio \<and> pitch_ratio \<le> 2 \<longrightarrow>
        phase_vocoder_pitch_shift uninit input pitch_ratio = pv_clamped uninit input pitch_ratio
        \<and> psola_pitch_shift input pitch_ratio = psola_clamped input pitch_ratio)
   \<and> phase_vocoder_pitch_shift uninit input pitch_ratio
       = \<lparr>data = final_normalization
                   (pv_resample (int (length (data input)))
                      (temp_output
                         (pv_time_stretch uninit input (clamp_pitch_ratio pitch_ratio)))
                      (output_pos
                         (pv_time_stretch uninit input (clamp_pitch_ratio pitch_ratio)))),
          sample_rate = sample_rate input\<rparr>
   \<and> psola_pitch_shift input pitch_ratio
       = (if length (detect_pitch_marks input) < 2 then None
          else Some \<lparr>data = final_normalization
                              (psola_grains input (clamp_pitch_ratio pitch_ratio)
                                 (detect_pitch_marks input)),
                     sample_rate = sample_rate input\<rparr>)"
proof -
  have c1: "pitch_ratio < 0.5 \<Longrightarrow> clamp_pitch_ratio pitch_ratio = 0.5"
    and c2: "pitch_ratio > 2 \<Longrightarrow> clamp_pitch_ratio pitch_ratio = 2"
    and c3: "0.5 \<le> pitch_ratio \<Longrightarrow> pitch_ratio \<le> 2 \<Longrightarrow> clamp_pitch_ratio pitch_ratio = pitch_ratio"
    by (simp_all add: clamp_pitch_ratio_def)
  have s: "clamp_statements PosInf = Num 2" "clamp_statements NegInf = Num 0.5"
    by (simp_all add: clamp_statements_def fl_greater_def)
  have pv: "phase_vocoder_pitch_shift uninit input pitch_ratio
       = \<lparr>data = final_normalization
                   (pv_resample (int (length (data input)))
                      (temp_output
                         (pv_time_stretch uninit input (clamp_pitch_ratio pitch_ratio)))
                      (output_pos
                         (pv_time_stretch uninit input (clamp_pitch_ratio pitch_ratio)))),
          sample_rate = sample_rate input\<rparr>"
    by (simp add: phase_vocoder_pitch_shift_def pv_clamped_def pv_resampled_def Let_def)
  have ps: "psola_pitch_shift input pitch_ratio
       = (if length (detect_pitch_marks input) < 2 then None
          else Some \<lparr>data = final_normalization
                              (psola_grains input (clamp_pitch_ratio pitch_ratio)
                                 (detect_pitch_marks input)),
                     sample_rate = sample_rate input\<rparr>)"
    by (simp add: psola_pitch_shift_def psola_clamped_def Let_def)
  show ?thesis
    using clamp_statements_num [of pitch_ratio] clamp_pitch_ratio_range [of pitch_ratio] s pv ps
    by (simp add: phase_vocoder_pitch_shift_def psola_pitch_shift_def c1 c2 c3)
qed

text \<open>
  Instances where the clamp changes what the engine does. On 2560 samples at ratio 3
  the phase vocoder processes one frame with the synthesis hop 1024 of ratio 2, not
  1536. On 4096 samples at ratio 0.25 it processes two frames with the hop 256 of
  ratio 0.5, where 0.25 itself would leave no room for a frame. On 201 samples, with
  the pitch marks 0 and 200, PSOLA at ratio 3 places its grains at the output marks
  0, 100 and 200 of ratio 2, not at 0, 66, 132 and 198.
\<close>

theorem ratio_is_clamped_first_witness:
  "clamp_statements (Num 3) = Num 2 \<and> clamp_statements (Num 0.25) = Num 0.5
   \<and> clamp_statements (Num 1.5) = Num 1.5
   \<and> phase_vocoder_pitch_shift (\<lambda>i. \<lparr>real_c = 0, imag_c = 0\<rparr>)
        \<lparr>data = replicate 2560 0.5, sample_rate = 48000\<rparr> 3
       = pv_clamped (\<lambda>i. \<lparr>real_c = 0, imag_c = 0\<rparr>)
           \<lparr>data = replicate 2560 0.5, sample_rate = 48000\<rparr> 2
   \<and> output_pos (pv_time_stretch (\<lambda>i. \<lparr>real_c = 0, imag_c = 0\<rparr>)
                   \<lparr>data = replicate 2560 0.5, sample_rate = 48000\<rparr> 2) = 1024
   \<and> output_pos (pv_time_stretch (\<lambda>i. \<lparr>real_c = 0, imag_c = 0\<rparr>)
                   \<lparr>data = replicate 2560 0.5, sample_rate = 48000\<rparr> 3) = 1536
   \<and> phase_vocoder_pitch_shift (\<lambda>i. \<lparr>real_c = 0, imag_c = 0\<rparr>)
        \<lparr>data = replicate 4096 0.5, sample_rate = 48000\<rparr> 0.25
       = pv_clamped (\<lambda>i. \<lparr>real_c = 0, imag_c = 0\<rparr>)
           \<lparr>data = replicate 4096 0.5, sample_rate = 48000\<rparr> 0.5
   \<and> output_pos (pv_time_stretch (\<lambda>i. \<lparr>real_c = 0, imag_c = 0\<rparr>)
                   \<lparr>data = replicate 4096 0.5, sample_rate = 48000\<rparr> 0.5) = 512
   \<and> output_pos (pv_time_stretch (\<lambda>i. \<lparr>real_c = 0, imag_c = 0\<rparr>)
                   \<lparr>data = replicate 4096 0.5, sample_rate = 48000\<rparr> 0.25) = 0
   \<and> psola_pitch_shift \<lparr>data = replicate 201 0.5, sample_rate = 48000\<rparr> 3
       = psola_clamped \<lparr>data = replicate 201 0.5, sample_rate = 48000\<rparr> 2
   \<and> psola_pitch_shift \<lparr>data = replicate 201 0.5, sample_rate = 48000\<rparr> 1.5
       = psola_clamped \<lparr>data = replicate 201 0.5, sample_rate = 48000\<rparr> 1.5
   \<and> detect_pitch_marks \<lparr>data = replicate 201 0.5, sample_rate = 48000\<rparr> = [0, 200]
   \<and> output_mark_loop 201 [200] 2 0 0 [0] = [0, 100, 200]
   \<and> output_mark_loop 201 [200] 3 0 0 [0] = [0, 66, 132, 198]"
proof -
  let ?u = "\<lambda>i::nat. \<lparr>real_c = 0, imag_c = 0\<rparr>"
  let ?a = "\<lparr>data = replicate 2560 0.5, sample_rate = 48000\<rparr>"
  let ?b = "\<lparr>data = replicate 4096 0.5, sample_rate = 48000\<rparr>"
  let ?c = "\<lparr>data = replicate 201 0.5, sample_rate = 48000\<rparr>"
  note t3a = ratio_is_clamped_first [where pitch_ratio = 3 and uninit = ?u and input = ?a]
  note t3c = ratio_is_clamped_first [where pitch_ratio = 3 and uninit = ?u and input = ?c]
  note tqb = ratio_is_clamped_first [where pitch_ratio = "0.25" and uninit = ?u and input = ?b]
  note tmc = ratio_is_clamped_first [where pitch_ratio = "1.5" and uninit = ?u and input = ?c]
  have hi: "clamp_pitch_ratio 3 = 2" by (simp add: clamp_pitch_ratio_def)
  have lo: "clamp_pitch_ratio 0.25 = 0.5" by (simp add: clamp_pitch_ratio_def)
  have mid: "clamp_pitch_ratio 1.5 = 1.5" by (simp add: clamp_pitch_ratio_def)
  from t3a have "clamp_statements (Num 3) = Num (clamp_pitch_ratio 3)" by (rule conjunct1)
  then have s1: "clamp_statements (Num 3) = Num 2" by (simp only: hi)
  from tqb have "clamp_statements (Num 0.25) = Num (clamp_pitch_ratio 0.25)" by (rule conjunct1)
  then have s2: "clamp_statements (Num 0.25) = Num 0.5" by (simp only: lo)
  from tmc have "clamp_statements (Num 1.5) = Num (clamp_pitch_ratio 1.5)" by (rule conjunct1)
  then have s3: "clamp_statements (Num 1.5) = Num 1.5" by (simp only: mid)
  from t3a have "(3::real) > 2 \<longrightarrow>
        phase_vocoder_pitch_shift ?u ?a 3 = pv_clamped ?u ?a 2
        \<and> psola_pitch_shift ?a 3 = psola_clamped ?a 2" by blast
  then have p1: "phase_vocoder_pitch_shift ?u ?a 3 = pv_clamped ?u ?a 2" by simp
  from tqb have "(0.25::real) < 0.5 \<longrightarrow>
        phase_vocoder_pitch_shift ?u ?b 0.25 = pv_clamped ?u ?b 0.5
        \<and> psola_pitch_shift ?b 0.25 = psola_clamped ?b 0.5" by blast
  then have p2: "phase_vocoder_pitch_shift ?u ?b 0.25 = pv_clamped ?u ?b 0.5" by simp
  from t3c have "(3::real) > 2 \<longrightarrow>
        phase_vocoder_pitch_shift ?u ?c 3 = pv_clamped ?u ?c 2
        \<and> psola_pitch_shift ?c 3 = psola_clamped ?c 2" by blast
  then have p3: "psola_pitch_shift ?c 3 = psola_clamped ?c 2" by simp
  from tmc have "0.5 \<le> (1.5::real) \<and> (1.5::real) \<le> 2 \<longrightarrow>
        phase_vocoder_pitch_shift ?u ?c 1.5 = pv_clamped ?u ?c 1.5
        \<and> psola_pitch_shift ?c 1.5 = psola_clamped ?c 1.5" by blast
  then have p4: "psola_pitch_shift ?c 1.5 = psola_clamped ?c 1.5" by simp
  have m: "detect_pitch_marks ?c = [0, 200]" by (rule marks_of_201) simp
  from s1 s2 s3 p1 pv_one_frame_2 [of ?u] pv_one_frame_3 [of ?u] p2 pv_two_frames_half [of ?u]
    pv_no_frame_quarter [of ?u] p3 p4 m oml_2 oml_3
  show ?thesis by (intro conjI)
qed

text \<open>
  A NaN ratio, which \<open>atof\<close> returns for the argument \<open>nan\<close>: the check in \<open>main\<close> lets
  it through, both comparisons of the clamp are false, and the ratio stays NaN.
\<close>

theorem nan_ratio_is_not_clamped:
  "\<not> main_rejects_ratio NaN \<and> clamp_statements NaN = NaN"
  by (simp add: main_rejects_ratio_def fl_less_eq_def clamp_statements_def fl_greater_def)

subsection \<open>Samples that are not finite numbers\<close>

lemma fl_add_NaN [simp]: "fl_add a NaN = NaN"
  by (cases a) simp_all

lemma fl_mul_NaN [simp]: "fl_mul a NaN = NaN"
  by (cases a) simp_all





lemma overlap_fold_keeps_nan:
  "k < length out \<Longrightarrow> out ! k = NaN \<Longrightarrow>
   length (fold (\<lambda>i out. let pos = c + i
                          in if pos \<ge> 0 \<and> pos < n
                             then out[nat pos := fl_add (out ! nat pos) (grain ! nat i)]
                             else out) is out) = length out
   \<and> fold (\<lambda>i out. let pos = c + i
                    in if pos \<ge> 0 \<and> pos < n
                       then out[nat pos := fl_add (out ! nat pos) (grain ! nat i)]
                       else out) is out ! k = NaN"
proof (induction "is" arbitrary: out)
  case Nil
  then show ?case by simp
next
  case (Cons i "is")
  let ?out' = "(let pos = c + i
                in if pos \<ge> 0 \<and> pos < n
                   then out[nat pos := fl_add (out ! nat pos) (grain ! nat i)] else out)"
  have l: "length ?out' = length out" by (simp add: Let_def)
  have "?out' ! k = NaN"
    using Cons.prems by (cases "nat (c + i) = k") (auto simp: Let_def)
  with Cons.IH [of ?out'] Cons.prems l show ?case by simp
qed


lemma overlap_add_fl_keeps_nan:
  "k < length out \<Longrightarrow> out ! k = NaN \<Longrightarrow>
   length (overlap_add_fl out grain center grain_size n) = length out
   \<and> overlap_add_fl out grain center grain_size n ! k = NaN"
  unfolding overlap_add_fl_def Let_def
  using overlap_fold_keeps_nan [of k out "center - grain_size sdiv 2" n grain
          "[0..grain_size - 1]"]
  by (simp add: Let_def)

lemma length_overlap_add_fl [simp]:
  "length (overlap_add_fl out grain center grain_size n) = length out"
proof -
  have "length (fold (\<lambda>i out. let pos = c + i
                          in if pos \<ge> 0 \<and> pos < n
                             then out[nat pos := fl_add (out ! nat pos) (grain ! nat i)]
                             else out) is out) = length out" for c "is"
    by (induction "is" arbitrary: out) (simp_all add: Let_def)
  from this [of "center - grain_size sdiv 2" "[0..grain_size - 1]"]
  show ?thesis by (simp add: overlap_add_fl_def Let_def)
qed

lemma length_place_grain_fl [simp]:
  "length (place_grain_fl input input_marks grain_size out_mark out) = length out"
  by (simp add: place_grain_fl_def Let_def)

lemma place_grain_fl_keeps_nan:
  "k < length out \<Longrightarrow> out ! k = NaN \<Longrightarrow>
   place_grain_fl input input_marks grain_size out_mark out ! k = NaN"
  by (simp add: place_grain_fl_def Let_def overlap_add_fl_keeps_nan)

lemma fold_place_grain_fl_keeps_nan:
  "k < length out \<Longrightarrow> out ! k = NaN \<Longrightarrow>
   fold (place_grain_fl input input_marks grain_size) ms out ! k = NaN"
  by (induction ms arbitrary: out) (simp_all add: place_grain_fl_keeps_nan)

























section \<open>Properties of the WAV codec\<close>


lemma w255_32: "(255 :: 32 word) = mask 8" by (simp add: mask_eq_exp_minus_1)
lemma w255_16: "(255 :: 16 word) = mask 8" by (simp add: mask_eq_exp_minus_1)

lemma mask255_32: "(ucast (w AND 255) :: byte) = ucast (w :: 32 word)"
  unfolding w255_32 by (rule bit_word_eqI) (auto simp: bit_simps)

lemma mask255_16: "(ucast (w AND 255) :: byte) = ucast (w :: 16 word)"
  unfolding w255_16 by (rule bit_word_eqI) (auto simp: bit_simps)

lemma rd32_le32: "rd32 (le32 w) = w"
  unfolding rd32_def le32_def
proof (rule bit_word_eqI)
  fix n assume "n < LENGTH(32)"
  then have n: "n < 32" by simp
  consider "n < 8" | "8 \<le> n" "n < 16" | "16 \<le> n" "n < 24" | "24 \<le> n" "n < 32"
    using n by linarith
  then show "bit (ucast ([ucast w, ucast (drop_bit 8 w), ucast (drop_bit 16 w), ucast (drop_bit 24 w) :: byte] ! 0) OR
          push_bit 8 (ucast ([ucast w, ucast (drop_bit 8 w), ucast (drop_bit 16 w), ucast (drop_bit 24 w) :: byte] ! 1)) OR
          push_bit 16 (ucast ([ucast w, ucast (drop_bit 8 w), ucast (drop_bit 16 w), ucast (drop_bit 24 w) :: byte] ! 2)) OR
          push_bit 24 (ucast ([ucast w, ucast (drop_bit 8 w), ucast (drop_bit 16 w), ucast (drop_bit 24 w) :: byte] ! 3)) :: 32 word) n
        = bit w n"
    by cases (auto simp: bit_simps)
qed

lemma rd16_le16: "rd16 (le16 w) = w"
  unfolding rd16_def le16_def
proof (rule bit_word_eqI)
  fix n assume "n < LENGTH(16)"
  then have n: "n < 16" by simp
  consider "n < 8" | "8 \<le> n" "n < 16"
    using n by linarith
  then show "bit (ucast ([ucast w, ucast (drop_bit 8 w) :: byte] ! 0) OR
          push_bit 8 (ucast ([ucast w, ucast (drop_bit 8 w) :: byte] ! 1)) :: 16 word) n
        = bit w n"
    by cases (auto simp: bit_simps)
qed

lemma length_le32 [simp]: "length (le32 w) = 4" by (simp add: le32_def)
lemma length_le16 [simp]: "length (le16 w) = 2" by (simp add: le16_def)
lemma length_ascii [simp]: "length (ascii s) = length s" by (simp add: ascii_def)

lemma length_canonical_header [simp]: "length (canonical_header t c r w n) = 44"
  by (simp add: canonical_header_def)

lemma wav_header_mono16:
  "wav_header (of_nat n) fs 16 1 = canonical_header 1 1 fs 16 (2 * n)"
  by (simp add: wav_header_def canonical_header_def Let_def mask255_32 mask255_16 le32_def le16_def
        ascii_def mult.commute)

lemma riff_size_field_canonical:
  "riff_size_field (canonical_header t c r w n @ payload) = unat (of_nat (36 + n) :: 32 word)"
  by (simp add: riff_size_field_def canonical_header_def rd32_le32)

lemma data_size_field_canonical:
  "data_size_field (canonical_header t c r w n @ payload) = unat (of_nat n :: 32 word)"
  by (simp add: data_size_field_def canonical_header_def rd32_le32)

lemma length_float_payload [simp]: "length (float_payload F xs) = 4 * length xs"
  by (induction xs) (simp_all add: float_payload_def)

lemma write_wav_file_canonical:
  "snd (write_wav_file F True b)
   = Some (canonical_header 3 1 (sample_rate b) 32 (4 * length (data b)) @ float_payload F (data b))"
  by (simp add: write_wav_file_def canonical_header_def Let_def mult.commute)

lemma float_payload_at:
  "i < length xs \<Longrightarrow> take 4 (drop (4 * i) (float_payload F xs)) = le32 (float_bits F (xs ! i))"
proof (induction xs arbitrary: i)
  case Nil
  then show ?case by simp
next
  case (Cons x xs)
  show ?case
  proof (cases i)
    case 0
    then show ?thesis by (simp add: float_payload_def)
  next
    case (Suc j)
    with Cons.prems have "j < length xs" by simp
    from Cons.IH [OF this] Suc show ?thesis by (simp add: float_payload_def)
  qed
qed

lemma ascii_neq: "ascii ''data'' \<noteq> ascii ''RIFF''"
  by (simp add: ascii_def)

lemma unat_len4:
  assumes "n < 2 ^ 30"
  shows "unat (of_nat n * 4 :: 32 word) = 4 * n"
proof -
  have "unat (of_nat n * 4 :: 32 word) = (n * 4) mod 2 ^ 32"
    by (simp add: unat_word_ariths unat_of_nat mod_mult_left_eq)
  also have "\<dots> = 4 * n" using assms by simp
  finally show ?thesis .
qed

lemma read_write_exact:
  assumes len: "length (data b) < 2 ^ 30"
    and rep: "\<forall>x \<in> set (data b). bits_float F (float_bits F x) = x"
  shows "read_wav_file F (snd (write_wav_file F True b)) = Inr b"
proof -
  let ?n = "length (data b)"
  let ?ds = "of_nat ?n * 4 :: 32 word"
  let ?f = "ascii ''RIFF'' @ le32 (36 + ?ds) @ ascii ''WAVE''
                     @ ascii ''fmt '' @ le32 16 @ le16 3 @ le16 1
                     @ le32 (sample_rate b) @ le32 (sample_rate b * 4) @ le16 4
                     @ le16 32
                     @ ascii ''data'' @ le32 ?ds
                     @ float_payload F (data b)"
  have w: "snd (write_wav_file F True b) = Some ?f"
    by (simp add: write_wav_file_def Let_def)
  have u: "unat ?ds = 4 * ?n" using len by (rule unat_len4)
  have fd: "find_data_chunk (ascii ''data'' @ le32 ?ds @ float_payload F (data b)) None
            = Inr (?ds, float_payload F (data b))"
    by (subst find_data_chunk.simps) (simp add: rd32_le32)
  have d4: "?ds div 4 = of_nat ?n"
  proof -
    have "unat (?ds div 4) = ?n" by (simp add: unat_div u)
    moreover have "unat (of_nat ?n :: 32 word) = ?n" using len by (simp add: unat_of_nat)
    ultimately show ?thesis by (simp add: word_unat_eq_iff)
  qed
  have un: "unat (of_nat ?n :: 32 word) = ?n" using len by (simp add: unat_of_nat)
  have samples: "map (\<lambda>i. float_at F (float_payload F (data b)) i) [0..<?n] = data b"
  proof (rule nth_equalityI)
    show "length (map (\<lambda>i. float_at F (float_payload F (data b)) i) [0..<?n]) = ?n" by simp
  next
    fix i assume "i < length (map (\<lambda>i. float_at F (float_payload F (data b)) i) [0..<?n])"
    then have i: "i < ?n" by simp
    then have "data b ! i \<in> set (data b)" by simp
    with rep have "bits_float F (float_bits F (data b ! i)) = data b ! i" by blast
    with i show "map (\<lambda>i. float_at F (float_payload F (data b)) i) [0..<?n] ! i = data b ! i"
      by (simp add: float_at_def float_payload_at rd32_le32)
  qed
  show ?thesis
    unfolding w read_wav_file_def
    by (simp add: Let_def rd32_le32 rd16_le16 fd u d4 un samples ascii_neq signed_divide_int_def)
qed

lemma length_pcm_payload [simp]: "length (pcm_payload xs) = 2 * length xs"
  by (induction xs) (simp_all add: pcm_payload_def)

lemma pcm_payload_append: "pcm_payload (xs @ ys) = pcm_payload xs @ pcm_payload ys"
  by (simp add: pcm_payload_def)

lemma pcm_payload_at:
  "i < length xs \<Longrightarrow> take 2 (drop (2 * i) (pcm_payload xs)) = le16 (float_to_pcm16 (xs ! i))"
proof (induction xs arbitrary: i)
  case Nil
  then show ?case by simp
next
  case (Cons x xs)
  show ?case
  proof (cases i)
    case 0
    then show ?thesis by (simp add: pcm_payload_def)
  next
    case (Suc j)
    with Cons.prems have "j < length xs" by simp
    from Cons.IH [OF this] Suc show ?thesis by (simp add: pcm_payload_def)
  qed
qed

lemma chunk_map:
  "w + k \<le> length xs \<Longrightarrow> map (\<lambda>i. g (xs ! (w + i))) [0..<k] = map g (take k (drop w xs))"
  by (rule nth_equalityI) auto

lemma save_chunks_eq: "save_chunks xs w = pcm_payload (drop w xs)"
proof (induction xs w rule: save_chunks.induct)
  case (1 samples w)
  show ?case
  proof (cases "w < length samples")
    case False
    then show ?thesis by (subst save_chunks.simps) (simp add: pcm_payload_def)
  next
    case True
    define k where "k = (if length samples - w > 1024 then 1024 else length samples - w)"
    have k: "w + k \<le> length samples" using True by (auto simp: k_def)
    have ih: "save_chunks samples (w + k) = pcm_payload (drop (w + k) samples)"
      using 1 [OF True, of k] by (simp add: k_def)
    have "save_chunks samples w =
            concat (map le16 (map (\<lambda>i. float_to_pcm16 (samples ! (w + i))) [0..<k]))
            @ save_chunks samples (w + k)"
      using True by (subst save_chunks.simps) (simp add: k_def Let_def)
    also have "map (\<lambda>i. float_to_pcm16 (samples ! (w + i))) [0..<k]
                 = map float_to_pcm16 (take k (drop w samples))"
      using k by (rule chunk_map)
    also have "concat (map le16 (map float_to_pcm16 (take k (drop w samples))))
                 = pcm_payload (take k (drop w samples))"
      by (simp add: pcm_payload_def comp_def)
    finally have "save_chunks samples w
                    = pcm_payload (take k (drop w samples)) @ pcm_payload (drop (w + k) samples)"
      using ih by simp
    also have "\<dots> = pcm_payload (take k (drop w samples) @ drop k (drop w samples))"
      by (simp add: pcm_payload_append add.commute)
    finally show ?thesis by (simp only: append_take_drop_id)
  qed
qed

lemma take_pcm_payload: "take (2 * k) (pcm_payload xs) = pcm_payload (take k xs)"
proof (induction xs arbitrary: k)
  case Nil
  then show ?case by (simp add: pcm_payload_def)
next
  case (Cons x xs)
  show ?case
  proof (cases k)
    case 0
    then show ?thesis by (simp add: pcm_payload_def)
  next
    case (Suc j)
    from Cons.IH [of j] Suc show ?thesis by (simp add: pcm_payload_def)
  qed
qed

lemma drop_pcm_payload: "drop (2 * k) (pcm_payload xs) = pcm_payload (drop k xs)"
proof (induction xs arbitrary: k)
  case Nil
  then show ?case by (simp add: pcm_payload_def)
next
  case (Cons x xs)
  show ?case
  proof (cases k)
    case 0
    then show ?thesis by (simp add: pcm_payload_def)
  next
    case (Suc j)
    from Cons.IH [of j] Suc show ?thesis by (simp add: pcm_payload_def)
  qed
qed

lemma load_chunks_payload:
  "load_chunks (pcm_payload xs) (r + length xs) r acc = Some (acc @ map pcm_round_trip xs)"
proof (induction "length xs" arbitrary: xs r acc rule: less_induct)
  case less
  show ?case
  proof (cases "xs = []")
    case True
    then show ?thesis by (subst load_chunks.simps) simp
  next
    case False
    define k where "k = (if length xs > 1024 then 1024 else length xs)"
    have kpos: "0 < k" and kle: "k \<le> length xs" using False by (auto simp: k_def)
    have lt: "r < r + length xs" using False by simp
    have chunk: "take (k * 2) (pcm_payload xs) = pcm_payload (take k xs)"
      using take_pcm_payload [of k xs] by (simp add: mult.commute)
    have br: "length (pcm_payload (take k xs)) = 2 * k" using kle by simp
    have conv: "map (\<lambda>i. pcm16_to_float (short_at (pcm_payload (take k xs)) i)) [0..<k]
                = map pcm_round_trip (take k xs)"
    proof (rule nth_equalityI)
      show "length (map (\<lambda>i. pcm16_to_float (short_at (pcm_payload (take k xs)) i)) [0..<k])
            = length (map pcm_round_trip (take k xs))" using kle by simp
    next
      fix i assume "i < length (map (\<lambda>i. pcm16_to_float (short_at (pcm_payload (take k xs)) i)) [0..<k])"
      then have i: "i < k" by simp
      then have "i < length (take k xs)" using kle by simp
      from pcm_payload_at [OF this] i
      show "map (\<lambda>i. pcm16_to_float (short_at (pcm_payload (take k xs)) i)) [0..<k] ! i
            = map pcm_round_trip (take k xs) ! i"
        using kle by (simp add: short_at_def rd16_le16 pcm_round_trip_def)
    qed
    have shorter: "length (drop k xs) < length xs" using kpos kle by simp
    have ih: "load_chunks (pcm_payload (drop k xs)) (r + k + length (drop k xs)) (r + k)
                (acc @ map pcm_round_trip (take k xs))
              = Some ((acc @ map pcm_round_trip (take k xs)) @ map pcm_round_trip (drop k xs))"
      by (rule less [OF shorter])
    have total: "r + k + length (drop k xs) = r + length xs" using kle by simp
    have step: "load_chunks (pcm_payload xs) (r + length xs) r acc
                = load_chunks (drop (2 * k) (pcm_payload xs)) (r + length xs) (r + k)
                    (acc @ map (\<lambda>i. pcm16_to_float (short_at (pcm_payload (take k xs)) i)) [0..<k])"
      apply (subst load_chunks.simps)
      apply (simp only: lt if_True add_diff_cancel_left' flip: k_def)
      apply (simp only: Let_def chunk br)
      apply simp
      done
    have "map pcm_round_trip (take k xs) @ map pcm_round_trip (drop k xs) = map pcm_round_trip xs"
      by (simp flip: map_append)
    then show ?thesis
      using ih unfolding step conv drop_pcm_payload total by simp
  qed
qed

lemma sint16_word: "- 32768 \<le> q \<Longrightarrow> q < 32768 \<Longrightarrow> sint (word_of_int q :: 16 word) = q"
  by (simp add: int_word_sint)

lemma pcm_round_trip_error:
  assumes "- 1 \<le> x" and "x \<le> 1"
  shows "\<bar>pcm_round_trip x - x\<bar> < 2 / 32768"
proof -
  let ?q = "c_trunc (x * 32767)"
  have q: "- 32767 \<le> ?q \<and> ?q \<le> 32767" using assms by (auto simp: c_trunc_def; linarith)
  then have s: "sint (word_of_int ?q :: 16 word) = ?q" by (intro sint16_word) auto
  have rt: "pcm_round_trip x = real_of_int ?q / 32768"
    using assms s by (simp add: pcm_round_trip_def pcm16_to_float_def float_to_pcm16_def)
  show ?thesis
  proof (cases "0 \<le> x")
    case True
    then have "real_of_int ?q \<le> x * 32767" "x * 32767 - 1 < real_of_int ?q"
      by (simp_all add: c_trunc_def; linarith)+
    with assms True show ?thesis unfolding rt by (simp add: abs_if field_simps)
  next
    case False
    then have "x * 32767 \<le> real_of_int ?q" "real_of_int ?q < x * 32767 + 1"
      by (simp_all add: c_trunc_def; linarith)+
    with assms False show ?thesis unfolding rt by (simp add: abs_if field_simps)
  qed
qed

lemma save_wav_to_sd_canonical:
  "snd (save_wav_to_sd True b)
   = Some (canonical_header 1 1 (sample_rate b) 16 (2 * length (data b)) @ pcm_payload (data b))"
  by (simp add: save_wav_to_sd_def Let_def wav_header_mono16 save_chunks_eq)

lemma canonical_header_magic:
  "canonical_header t c r w n ! 0 = of_char CHR ''R''"
  "canonical_header t c r w n ! 1 = of_char CHR ''I''"
  "canonical_header t c r w n ! 2 = of_char CHR ''F''"
  "canonical_header t c r w n ! 3 = of_char CHR ''F''"
  "canonical_header t c r w n ! 8 = of_char CHR ''W''"
  "canonical_header t c r w n ! 9 = of_char CHR ''A''"
  "canonical_header t c r w n ! 10 = of_char CHR ''V''"
  "canonical_header t c r w n ! 11 = of_char CHR ''E''"
  by (simp_all add: canonical_header_def ascii_def nth_append)

lemma canonical_header_fields:
  "take 4 (drop 24 (canonical_header t c r w n)) = le32 r"
  "take 2 (drop 34 (canonical_header t c r w n)) = le16 w"
  "take 4 (drop 40 (canonical_header t c r w n)) = le32 (of_nat n)"
  by (simp_all add: canonical_header_def)

lemma unat_of_nat32: "k < 2 ^ 32 \<Longrightarrow> unat (of_nat k :: 32 word) = k"
  by (simp add: unat_of_nat)

lemma pcm_save_load:
  assumes "length (data b) < 2 ^ 31"
  shows "load_wav_from_sd (snd (save_wav_to_sd True b))
         = Some (Some \<lparr>data = map pcm_round_trip (data b), sample_rate = sample_rate b\<rparr>)"
proof -
  let ?n = "length (data b)"
  let ?h = "canonical_header 1 1 (sample_rate b) 16 (2 * ?n)"
  have u: "unat (of_nat (2 * ?n) :: 32 word) = 2 * ?n"
    using assms by (intro unat_of_nat32) simp
  have ns: "unat ((of_nat (2 * ?n) :: 32 word) div 2) = ?n"
    by (simp only: unat_div u) simp
  have lc: "load_chunks (pcm_payload (data b)) ?n 0 [] = Some (map pcm_round_trip (data b))"
    using load_chunks_payload [of "data b" 0 "[]"] by simp
  show ?thesis
    unfolding save_wav_to_sd_canonical load_wav_from_sd_def
    by (simp add: Let_def canonical_header_magic [simplified] canonical_header_fields
          rd32_le32 rd16_le16 ns lc del: of_nat_mult of_nat_numeral)
qed

text \<open>
  Claim C2, as the code has it. For a buffer of fewer than \<open>2 ^ 30\<close> samples, each
  of them a value of the 32-bit float format, writing the float file and reading it
  back returns the same buffer. For a buffer of fewer than \<open>2 ^ 31\<close> samples, saving
  the 16-bit file and loading it back terminates and returns the samples after the
  two conversions, at the same sample rate; and for a sample between -1 and 1 the two
  conversions move it by less than 2/32768.
\<close>

theorem wav_round_trip:
  "(length (data b) < 2 ^ 30 \<and> (\<forall>x \<in> set (data b). bits_float F (float_bits F x) = x)
      \<longrightarrow> read_wav_file F (snd (write_wav_file F True b)) = Inr b)
   \<and> (length (data b) < 2 ^ 31
      \<longrightarrow> load_wav_from_sd (snd (save_wav_to_sd True b))
           = Some (Some \<lparr>data = map pcm_round_trip (data b), sample_rate = sample_rate b\<rparr>))
   \<and> (- 1 \<le> x \<and> x \<le> 1 \<longrightarrow> \<bar>pcm_round_trip x - x\<bar> < 1 / 16384)"
proof (intro conjI impI)
  assume "length (data b) < 2 ^ 30 \<and> (\<forall>x \<in> set (data b). bits_float F (float_bits F x) = x)"
  then show "read_wav_file F (snd (write_wav_file F True b)) = Inr b"
    using read_write_exact by blast
next
  assume "length (data b) < 2 ^ 31"
  then show "load_wav_from_sd (snd (save_wav_to_sd True b))
           = Some (Some \<lparr>data = map pcm_round_trip (data b), sample_rate = sample_rate b\<rparr>)"
    by (rule pcm_save_load)
next
  assume "- 1 \<le> x \<and> x \<le> 1"
  then have "\<bar>pcm_round_trip x - x\<bar> < 2 / 32768" using pcm_round_trip_error by blast
  then show "\<bar>pcm_round_trip x - x\<bar> < 1 / 16384" by simp
qed

lemma pcm_round_trip_half: "pcm_round_trip 0.5 = 16383 / 32768"
  by (simp add: pcm_round_trip_def pcm16_to_float_def float_to_pcm16_def c_trunc_def)

lemma pcm_round_trip_zero: "pcm_round_trip 0 = 0"
  by (simp add: pcm_round_trip_def pcm16_to_float_def float_to_pcm16_def c_trunc_def)

text \<open>
  An instance, with a two-sample buffer and a stand-in representation that encodes
  the sample 0.5 as the bit pattern 1 and every other value as 0.
\<close>

theorem wav_round_trip_witness:
  "read_wav_file \<lparr>float_bits = (\<lambda>x. if x = 0.5 then 1 else 0),
                  bits_float = (\<lambda>w. if w = 1 then 0.5 else 0)\<rparr>
     (snd (write_wav_file \<lparr>float_bits = (\<lambda>x. if x = 0.5 then 1 else 0),
                            bits_float = (\<lambda>w. if w = 1 then 0.5 else 0)\<rparr>
             True \<lparr>data = [0.5, 0], sample_rate = 48000\<rparr>))
     = Inr \<lparr>data = [0.5, 0], sample_rate = 48000\<rparr>
   \<and> load_wav_from_sd (snd (save_wav_to_sd True \<lparr>data = [0.5, 0], sample_rate = 48000\<rparr>))
     = Some (Some \<lparr>data = [16383 / 32768, 0], sample_rate = 48000\<rparr>)
   \<and> \<bar>pcm_round_trip 0.5 - 0.5\<bar> < 1 / 16384"
proof -
  let ?F = "\<lparr>float_bits = (\<lambda>x::real. if x = 0.5 then 1 else 0 :: 32 word),
             bits_float = (\<lambda>w::32 word. if w = 1 then 0.5 else 0 :: real)\<rparr>"
  let ?b = "\<lparr>data = [0.5, 0], sample_rate = 48000\<rparr>"
  note t = wav_round_trip [of ?b ?F "0.5"]
  have h1: "length (data ?b) < 2 ^ 30 \<and> (\<forall>x \<in> set (data ?b). bits_float ?F (float_bits ?F x) = x)"
    by simp
  have h2: "length (data ?b) < 2 ^ 31" by simp
  have h3: "- 1 \<le> (0.5::real) \<and> (0.5::real) \<le> 1" by simp
  from t h1 have a: "read_wav_file ?F (snd (write_wav_file ?F True ?b)) = Inr ?b" by blast
  from t h2 have "load_wav_from_sd (snd (save_wav_to_sd True ?b))
           = Some (Some \<lparr>data = map pcm_round_trip (data ?b), sample_rate = sample_rate ?b\<rparr>)"
    by blast
  then have b: "load_wav_from_sd (snd (save_wav_to_sd True ?b))
     = Some (Some \<lparr>data = [16383 / 32768, 0], sample_rate = 48000\<rparr>)"
    using pcm_round_trip_half by (simp add: pcm_round_trip_zero)
  from t h3 have c: "\<bar>pcm_round_trip 0.5 - 0.5\<bar> < 1 / 16384" by blast
  from a b c show ?thesis by (intro conjI)
qed

lemma pcm_round_trip_near_one: "pcm_round_trip (65535 / 65536) = 16383 / 16384"
proof -
  have "\<lfloor>65535 * 32767 / (65536::real)\<rfloor> = 32766" by linarith
  then have "c_trunc (65535 / 65536 * 32767) = 32766" by (simp add: c_trunc_def)
  then show ?thesis
    by (simp add: pcm_round_trip_def pcm16_to_float_def float_to_pcm16_def)
qed

text \<open>
  Claim C2, as stated, bounds the 16-bit error by 1/32768. The save path scales by
  32767 and truncates, the load path divides by 32768: the sample 65535/65536 is
  saved as 32766 and loaded as 16383/16384, which is 3/65536 away.
\<close>

theorem pcm_round_trip_exceeds_bound:
  "- 1 \<le> (65535 / 65536 :: real) \<and> (65535 / 65536 :: real) \<le> 1
   \<and> load_wav_from_sd (snd (save_wav_to_sd True \<lparr>data = [65535 / 65536], sample_rate = 48000\<rparr>))
     = Some (Some \<lparr>data = [16383 / 16384], sample_rate = 48000\<rparr>)
   \<and> \<not> \<bar>16383 / 16384 - 65535 / 65536\<bar> \<le> (1 / 32768 :: real)"
proof -
  have "load_wav_from_sd (snd (save_wav_to_sd True \<lparr>data = [65535 / 65536], sample_rate = 48000\<rparr>))
     = Some (Some \<lparr>data = [16383 / 16384], sample_rate = 48000\<rparr>)"
    using pcm_save_load [of "\<lparr>data = [65535 / 65536], sample_rate = 48000\<rparr>"]
    by (simp add: pcm_round_trip_near_one)
  then show ?thesis by simp
qed

text \<open>
  Claim C9, as the code has it. Each of the two writers produces the 44 bytes of the
  canonical header followed at once by the sample bytes: format tag 3 and 32 bits for
  \<open>write_wav_file\<close>, format tag 1 and 16 bits for \<open>save_wav_to_sd\<close>, one channel in
  both. Byte rate and block align are the products the specification names, in the
  width of their fields. The two size fields hold 36 plus the data byte count and
  the data byte count whenever the former is below \<open>2 ^ 32\<close>.
\<close>

theorem saved_file_layout:
  "snd (write_wav_file F True b)
     = Some (canonical_header 3 1 (sample_rate b) 32 (4 * length (data b))
             @ float_payload F (data b))
   \<and> snd (save_wav_to_sd True b)
     = Some (canonical_header 1 1 (sample_rate b) 16 (2 * length (data b))
             @ pcm_payload (data b))
   \<and> length (canonical_header t c r w n) = 44
   \<and> length (float_payload F (data b)) = 4 * length (data b)
   \<and> length (pcm_payload (data b)) = 2 * length (data b)
   \<and> (36 + n < 2 ^ 32 \<longrightarrow>
        riff_size_field (canonical_header t c r w n @ payload) = 36 + n
        \<and> data_size_field (canonical_header t c r w n @ payload) = n)"
proof -
  have "riff_size_field (canonical_header t c r w n @ payload) = 36 + n
        \<and> data_size_field (canonical_header t c r w n @ payload) = n" if "36 + n < 2 ^ 32"
  proof -
    from that have "unat (of_nat (36 + n) :: 32 word) = 36 + n" by (rule unat_of_nat32)
    moreover from that have "unat (of_nat n :: 32 word) = n" by (intro unat_of_nat32) simp
    ultimately show ?thesis
      by (simp only: riff_size_field_canonical data_size_field_canonical)
  qed
  then show ?thesis
    by (simp add: write_wav_file_canonical save_wav_to_sd_canonical)
qed

text \<open>An instance: two samples saved as 16-bit PCM.\<close>

theorem saved_file_layout_witness:
  "the (snd (save_wav_to_sd True \<lparr>data = [0.5, 0], sample_rate = 48000\<rparr>))
     = canonical_header 1 1 48000 16 4 @ pcm_payload [0.5, 0]
   \<and> riff_size_field (canonical_header 1 1 48000 16 4 @ pcm_payload [0.5, 0]) = 40
   \<and> data_size_field (canonical_header 1 1 48000 16 4 @ pcm_payload [0.5, 0]) = 4
   \<and> length (pcm_payload [0.5, 0]) = 4"
proof -
  note t = saved_file_layout [of "\<lparr>float_bits = (\<lambda>x. 0), bits_float = (\<lambda>w. 0)\<rparr>"
             "\<lparr>data = [0.5, 0], sample_rate = 48000\<rparr>" 1 1 48000 16 4 "pcm_payload [0.5, 0]"]
  have h: "36 + (4::nat) < 2 ^ 32" by simp
  from t h have f: "riff_size_field (canonical_header 1 1 48000 16 4 @ pcm_payload [0.5, 0]) = 36 + 4
        \<and> data_size_field (canonical_header 1 1 48000 16 4 @ pcm_payload [0.5, 0]) = 4" by blast
  from t have s: "snd (save_wav_to_sd True \<lparr>data = [0.5, 0], sample_rate = 48000\<rparr>)
     = Some (canonical_header 1 1 (sample_rate \<lparr>data = [0.5, 0], sample_rate = 48000\<rparr>) 16
               (2 * length (data \<lparr>data = [0.5, 0], sample_rate = 48000\<rparr>))
             @ pcm_payload (data \<lparr>data = [0.5, 0], sample_rate = 48000\<rparr>))" by blast
  from t have l: "length (pcm_payload (data \<lparr>data = [0.5, 0], sample_rate = 48000\<rparr>))
                  = 2 * length (data \<lparr>data = [0.5, 0], sample_rate = 48000\<rparr>)" by blast
  from f s l show ?thesis by simp
qed

text \<open>
  Claim C9, as stated, speaks of every buffer. A buffer of \<open>2 ^ 30\<close> samples has
  \<open>2 ^ 32\<close> data bytes, which \<open>write_wav_file\<close> writes in full after a header whose
  data size field reads 0.
\<close>

theorem data_size_field_wraps:
  "data_size_field (the (snd (write_wav_file \<lparr>float_bits = (\<lambda>x. 0), bits_float = (\<lambda>w. 0)\<rparr> True
       \<lparr>data = replicate (2 ^ 30) 0, sample_rate = 48000\<rparr>))) = 0
   \<and> length (drop 44 (the (snd (write_wav_file \<lparr>float_bits = (\<lambda>x. 0), bits_float = (\<lambda>w. 0)\<rparr> True
       \<lparr>data = replicate (2 ^ 30) 0, sample_rate = 48000\<rparr>)))) = 4294967296"
proof -
  let ?F = "\<lparr>float_bits = (\<lambda>x::real. 0 :: 32 word), bits_float = (\<lambda>w::32 word. 0 :: real)\<rparr>"
  let ?b = "\<lparr>data = replicate (2 ^ 30) (0::real), sample_rate = 48000\<rparr>"
  have n: "length (data ?b) = 2 ^ 30" by (simp only: AudioBuffer.simps length_replicate)
  have w: "the (snd (write_wav_file ?F True ?b))
           = canonical_header 3 1 (sample_rate ?b) 32 (4 * 2 ^ 30) @ float_payload ?F (data ?b)"
    by (simp only: write_wav_file_canonical n option.sel)
  have d: "data_size_field (the (snd (write_wav_file ?F True ?b)))
           = unat (of_nat (4 * 2 ^ 30) :: 32 word)"
    unfolding w by (rule data_size_field_canonical)
  have z: "unat (of_nat (4 * 2 ^ 30) :: 32 word) = 0" by (simp add: unat_of_nat)
  have "length (drop 44 (the (snd (write_wav_file ?F True ?b)))) = 4 * 2 ^ 30"
    unfolding w by (simp only: drop_append length_canonical_header drop_all order_refl
        diff_self_eq_0 drop_0 append_Nil length_float_payload n)
  then have l: "length (drop 44 (the (snd (write_wav_file ?F True ?b)))) = 4294967296" by simp
  from d z l show ?thesis by (simp only:) 
qed

end
